theory Spec2Isabelle
  imports Main "HOL-Library.Multiset"
begin

section \<open>Strings as Python sees them\<close>

text \<open>
  Python strings are sequences of code points. The model uses \<^typ>\<open>string\<close>, whose
  characters are the code points below 256 (ASCII and Latin-1); \<open>length\<close> is Python's
  \<open>len\<close> on such strings.
\<close>

definition py_isspace :: "char \<Rightarrow> bool" where
  \<comment> \<open>the code points below 256 for which \<open>str.isspace\<close> holds: what \<open>str.strip()\<close> removes\<close>
  "py_isspace c =
     (let n = of_char c :: nat
      in (9 \<le> n \<and> n \<le> 13) \<or> (28 \<le> n \<and> n \<le> 32) \<or> n = 133 \<or> n = 160)"

definition py_strip :: "string \<Rightarrow> string" where
  "py_strip s = rev (dropWhile py_isspace (rev (dropWhile py_isspace s)))"

definition startswith :: "string \<Rightarrow> string \<Rightarrow> bool" where
  "startswith s p = (take (length p) s = p)"

text \<open>
  \<open>s.replace(old, new)\<close>: the occurrences of \<open>old\<close> are found from the left and do not
  overlap.
\<close>

function replace_from :: "string \<Rightarrow> string \<Rightarrow> string \<Rightarrow> string" where
  "replace_from [] old new = []"
| "replace_from (c # cs) old new =
     (if old \<noteq> [] \<and> startswith (c # cs) old
      then new @ replace_from (drop (length old) (c # cs)) old new
      else c # replace_from cs old new)"
  by pat_completeness auto
termination
  by (relation "measure (\<lambda>(s, old, new). length s)") (auto simp: neq_Nil_conv)

definition py_replace :: "string \<Rightarrow> string \<Rightarrow> string \<Rightarrow> string" where
  "py_replace s old new =
     (if old = [] then new @ concat (map (\<lambda>c. c # new) s) else replace_from s old new)"

definition truthy :: "string option \<Rightarrow> bool" where
  \<comment> \<open>Python truthiness of an \<open>Optional[str]\<close>: \<open>None\<close> and the empty string are false\<close>
  "truthy e = (case e of None \<Rightarrow> False | Some s \<Rightarrow> s \<noteq> [])"

section \<open>Sessions of the HTTP API (api.py)\<close>

definition FREE_QUERY_LIMIT :: int where
  "FREE_QUERY_LIMIT = 2"

text \<open>
  The fields that the API's session dictionary and the UI's \<open>current_session\<close> share;
  each surface adds its own.
\<close>

record session_core =
  query_count :: int
  email_provided :: bool
  user_email :: "string option"
  skip_count :: int

record session = session_core +
  created_at :: string

type_synonym sessions = "string \<rightharpoonup> session"

definition new_session :: "string \<Rightarrow> session" where
  "new_session now =
     \<lparr>query_count = 0, email_provided = False, user_email = None, skip_count = 0,
      created_at = now\<rparr>"

definition get_or_create_session :: "string \<Rightarrow> string \<Rightarrow> sessions \<Rightarrow> session \<times> sessions" where
  \<comment> \<open>\<open>now\<close> is \<open>datetime.now().isoformat()\<close>\<close>
  "get_or_create_session now session_id store =
     (case store session_id of
        None \<Rightarrow> (new_session now, store(session_id \<mapsto> new_session now))
      | Some s \<Rightarrow> (s, store))"

subsection \<open>Collaborators of the endpoints\<close>

text \<open>
  What \<open>UniversityRAGChatbot.query\<close> yields in streaming mode: dictionaries with the keys
  \<open>content\<close>, \<open>sources\<close> and \<open>done\<close>.
\<close>

record chunk =
  content :: string
  sources :: string
  is_done :: bool

text \<open>
  The chatbot object as the endpoints use it: \<open>query(message, stream=False)\<close> returns a
  pair, \<open>query(message, stream=True)\<close> a finite sequence of chunks. Both catch their own
  exceptions (chatbot.py), so neither raises.
\<close>

record chatbot =
  query :: "string \<Rightarrow> string \<times> string"
  query_stream :: "string \<Rightarrow> chunk list"

subsection \<open>AuthenticationManager (main.py)\<close>

definition py_lower_char :: "char \<Rightarrow> char" where
  \<comment> \<open>\<open>str.lower\<close> on one code point below 256\<close>
  "py_lower_char c =
     (let n = of_char c :: nat
      in if (65 \<le> n \<and> n \<le> 90) \<or> (192 \<le> n \<and> n \<le> 222 \<and> n \<noteq> 215)
         then char_of (n + 32) else c)"

definition py_lower :: "string \<Rightarrow> string" where
  "py_lower s = map py_lower_char s"

definition ascii_alpha :: "char \<Rightarrow> bool" where
  \<comment> \<open>the class \<open>[a-zA-Z]\<close>\<close>
  "ascii_alpha c =
     (let n = of_char c :: nat in (65 \<le> n \<and> n \<le> 90) \<or> (97 \<le> n \<and> n \<le> 122))"

definition ascii_digit :: "char \<Rightarrow> bool" where
  \<comment> \<open>the class \<open>[0-9]\<close>\<close>
  "ascii_digit c = (let n = of_char c :: nat in 48 \<le> n \<and> n \<le> 57)"

definition local_char :: "char \<Rightarrow> bool" where
  \<comment> \<open>the class \<open>[a-zA-Z0-9._%+-]\<close>\<close>
  "local_char c = (ascii_alpha c \<or> ascii_digit c \<or> c \<in> set ''._%+-'')"

definition domain_char :: "char \<Rightarrow> bool" where
  \<comment> \<open>the class \<open>[a-zA-Z0-9.-]\<close>\<close>
  "domain_char c = (ascii_alpha c \<or> ascii_digit c \<or> c \<in> set ''.-'')"

text \<open>
  \<open>validate_email\<close> is \<open>re.match\<close> of
  \<^verbatim>\<open>^[a-zA-Z0-9._%+-]+@[a-zA-Z0-9.-]+\.[a-zA-Z]{2,}$\<close> on \<open>email.lower()\<close>.
  Neither class contains \<open>@\<close>, so the local part is everything before the first \<open>@\<close>;
  the last class contains no dot, so the top-level domain is everything after the last
  dot; \<open>$\<close> also matches before one final newline.
\<close>

definition validate_email :: "string \<Rightarrow> bool" where
  "validate_email email =
     (let s = py_lower email;
          local_part = takeWhile (\<lambda>c. c \<noteq> CHR ''@'') s
      in case drop (length local_part) s of
           [] \<Rightarrow> False
         | _ # r \<Rightarrow>
             (let r' = (if r \<noteq> [] \<and> last r = CHR 0x0A then butlast r else r);
                  tld = rev (takeWhile (\<lambda>c. c \<noteq> CHR ''.'') (rev r'));
                  domain_part = take (length r' - length tld - 1) r'
              in local_part \<noteq> [] \<and> list_all local_char local_part
                 \<and> length tld < length r'
                 \<and> domain_part \<noteq> [] \<and> list_all domain_char domain_part
                 \<and> 2 \<le> length tld \<and> list_all ascii_alpha tld))"

text \<open>
  The manager's MongoDB collections are outside the model; what the endpoints see of them
  is whether an operation on them raises, which \<open>save_email_only\<close> catches.
\<close>

record auth_manager =
  db_raises :: bool

datatype result_dict = Result bool string
  \<comment> \<open>the dictionary with the keys \<open>success\<close> and \<open>message\<close>\<close>

definition save_email_only :: "auth_manager \<Rightarrow> string \<Rightarrow> string \<Rightarrow> result_dict" where
  "save_email_only am email session_id =
     (if \<not> validate_email email then Result False ''Invalid email format''
      else if db_raises am then Result False ''Failed to save email''
      else Result True ''Email saved successfully'')"

subsection \<open>The server's globals and clock\<close>

record env =
  the_chatbot :: "chatbot option"
  the_auth_manager :: "auth_manager option"
  now_isoformat :: string
  now_timestamp :: string

datatype http_exception = HTTPException nat detail
  and detail = Text string | Str http_exception
  \<comment> \<open>\<open>Str e\<close> is \<open>str(e)\<close>, the detail of the status 500 that wraps a caught exception\<close>

definition request_session_id :: "env \<Rightarrow> string option \<Rightarrow> string" where
  \<comment> \<open>\<open>request.session_id or f"session_{datetime.now().timestamp()}"\<close>\<close>
  "request_session_id env sid =
     (case sid of
        None \<Rightarrow> ''session_'' @ now_timestamp env
      | Some s \<Rightarrow> if s = [] then ''session_'' @ now_timestamp env else s)"

subsection \<open>POST /api/chat\<close>

datatype ChatResponse = ChatResponse string "string option" string bool "int option"
  \<comment> \<open>answer, sources, session_id, require_email, skip_count\<close>

definition chat ::
  "env \<Rightarrow> string \<Rightarrow> string option \<Rightarrow> string option \<Rightarrow> sessions
     \<Rightarrow> (http_exception + ChatResponse) \<times> sessions" where
  "chat env request_message request_sid request_email store =
     (case the_chatbot env of
        None \<Rightarrow>
          (Inl (HTTPException 500 (Str (HTTPException 503
             (Text ''Chatbot is not initialized. Please check server logs.'')))), store)
      | Some cb \<Rightarrow>
          (let message = py_strip request_message;
               session_id = request_session_id env request_sid;
               (session, store1) = get_or_create_session (now_isoformat env) session_id store
           in if \<not> email_provided session \<and> \<not> truthy request_email
                 \<and> query_count session \<ge> FREE_QUERY_LIMIT
              then (Inr (ChatResponse [] None session_id True (Some (skip_count session))),
                    store1)
              else
                (let session1 =
                       (if truthy request_email \<and> \<not> email_provided session
                        then session\<lparr>email_provided := True, user_email := request_email\<rparr>
                        else session);
                     session2 =
                       (if \<not> email_provided session1
                        then session1\<lparr>query_count := query_count session1 + 1\<rparr>
                        else session1);
                     session3 =
                       (if truthy request_email \<and> \<not> email_provided session2
                        then session2\<lparr>email_provided := True, user_email := request_email\<rparr>
                        else session2);
                     (answer, srcs) = query cb message
                 in (Inr (ChatResponse answer (Some srcs) session_id False None),
                     store1(session_id \<mapsto> session3)))))"

subsection \<open>POST /api/chat/stream\<close>

datatype sse_event =
    RequireEmailEvent string bool int string
      \<comment> \<open>message, skip_allowed, skip_count, session_id; \<open>require_email\<close> and \<open>done\<close> true\<close>
  | ChunkEvent string string bool
      \<comment> \<open>content, sources, done\<close>
  | FinalEvent string string string
      \<comment> \<open>content, sources, session_id; \<open>done\<close> true\<close>
  | ErrorEvent string
      \<comment> \<open>error; \<open>done\<close> true\<close>


text \<open>
  The loop of \<open>generate\<close> over the chatbot's chunks: every chunk is forwarded as an event,
  and the last non-empty content and sources are remembered for the closing event.
\<close>

fun forward_chunks :: "chunk list \<Rightarrow> string \<Rightarrow> string \<Rightarrow> sse_event list \<times> string \<times> string" where
  "forward_chunks [] accumulated_answer srcs = ([], accumulated_answer, srcs)"
| "forward_chunks (c # cs) accumulated_answer srcs =
     (let accumulated_answer' = (if content c \<noteq> [] then content c else accumulated_answer);
          srcs' = (if sources c \<noteq> [] then sources c else srcs);
          (events, final) = forward_chunks cs accumulated_answer' srcs'
      in (ChunkEvent (content c) (sources c) (is_done c) # events, final))"

text \<open>
  \<open>generate\<close> is the generator behind the streaming response. It increments
  \<open>query_count\<close> after the loop and before its closing event. A client that goes away
  closes it where it is suspended: \<open>Some k\<close> says that this happens at the \<open>k\<close>-th event
  (before the first one for \<open>k = 0\<close>), \<open>None\<close> that the stream is read to its end.
  Nothing that \<open>generate\<close> calls raises, so its exception handler is not reached.
\<close>

definition generate ::
  "chatbot \<Rightarrow> string \<Rightarrow> string \<Rightarrow> nat option \<Rightarrow> session \<Rightarrow> sse_event list \<times> session" where
  "generate cb message session_id closed_at session =
     (let (events, accumulated_answer, srcs) = forward_chunks (query_stream cb message) [] [];
          final_data = FinalEvent accumulated_answer srcs session_id;
          completed = (events @ [final_data],
                       session\<lparr>query_count := query_count session + 1\<rparr>)
      in case closed_at of
           None \<Rightarrow> completed
         | Some k \<Rightarrow> if k \<le> length events then (take k events, session) else completed)"

definition chat_stream ::
  "env \<Rightarrow> string \<Rightarrow> string option \<Rightarrow> string option \<Rightarrow> nat option \<Rightarrow> sessions
     \<Rightarrow> (http_exception + sse_event list) \<times> sessions" where
  "chat_stream env request_message request_sid request_email closed_at store =
     (case the_chatbot env of
        None \<Rightarrow>
          (Inl (HTTPException 500 (Str (HTTPException 503
             (Text ''Chatbot is not initialized'')))), store)
      | Some cb \<Rightarrow>
          (let message = py_strip request_message;
               session_id = request_session_id env request_sid;
               (session, store1) = get_or_create_session (now_isoformat env) session_id store;
               qc = query_count session;
               skip_used = skip_count session;
               with_email = session\<lparr>email_provided := True, user_email := request_email,
                                     skip_count := 0\<rparr>;
               process = (\<lambda>session'.
                  let (events, session'') = generate cb message session_id closed_at session'
                  in (Inr events, store1(session_id \<mapsto> session'')))
           in if email_provided session then process session
              else if qc < FREE_QUERY_LIMIT then process session
              else if qc = FREE_QUERY_LIMIT then
                (if \<not> truthy request_email then
                   (if skip_used = 1 then process session
                    else (Inr [RequireEmailEvent
                            ''You've reached the free query limit. Please provide your email to continue.''
                            (skip_used = 0) skip_used session_id], store1))
                 else process with_email)
              else
                (if \<not> truthy request_email then
                   (Inr [RequireEmailEvent ''Email is required to continue.''
                           False skip_used session_id], store1)
                 else process with_email)))"

subsection \<open>POST /api/email/submit\<close>

datatype EmailResponse = EmailResponse bool string "string option"
  \<comment> \<open>success, message, session_id\<close>

text \<open>
  The request model has already accepted \<open>email\<close> as an \<open>EmailStr\<close> when the handler
  runs; the handler itself validates through \<open>save_email_only\<close>, after it has written
  the session.
\<close>

definition submit_email ::
  "env \<Rightarrow> string \<Rightarrow> string \<Rightarrow> sessions \<Rightarrow> (http_exception + EmailResponse) \<times> sessions" where
  "submit_email env email session_id store =
     (if session_id = [] then (Inl (HTTPException 400 (Text ''Invalid session'')), store)
      else case store session_id of
        None \<Rightarrow> (Inl (HTTPException 400 (Text ''Invalid session'')), store)
      | Some session \<Rightarrow>
          (let store' = store(session_id \<mapsto>
                 session\<lparr>email_provided := True, user_email := Some email, skip_count := 0\<rparr>);
               saved = (Inr (EmailResponse True ''Email saved successfully'' (Some session_id)),
                        store')
           in case the_auth_manager env of
                None \<Rightarrow> saved
              | Some am \<Rightarrow>
                  (case save_email_only am email session_id of
                     Result ok msg \<Rightarrow>
                       if \<not> ok then (Inl (HTTPException 400 (Text msg)), store')
                       else saved)))"

subsection \<open>POST /api/email/skip\<close>

definition skip_email ::
  "string \<Rightarrow> sessions \<Rightarrow> (http_exception + EmailResponse) \<times> sessions" where
  "skip_email session_id store =
     (if session_id = [] then (Inl (HTTPException 400 (Text ''Invalid session'')), store)
      else case store session_id of
        None \<Rightarrow> (Inl (HTTPException 400 (Text ''Invalid session'')), store)
      | Some session \<Rightarrow>
          if query_count session \<noteq> FREE_QUERY_LIMIT
          then (Inr (EmailResponse False ''Skip not allowed at this stage.'' (Some session_id)),
                store)
          else if skip_count session \<ge> 1
          then (Inr (EmailResponse False ''Skip already used.'' (Some session_id)), store)
          else (Inr (EmailResponse True
                  ''Skip accepted. Please wait while we process your previous question.''
                  (Some session_id)),
                store(session_id \<mapsto> session\<lparr>skip_count := 1\<rparr>)))"

subsection \<open>POST /api/session/clear\<close>

definition clear_session :: "string \<Rightarrow> sessions \<Rightarrow> result_dict \<times> sessions" where
  "clear_session session_id store =
     (let store' = (if session_id \<in> dom store then store(session_id := None) else store)
      in (Result True ''Session cleared'', store'))"

subsection \<open>Requests handled one after another\<close>

datatype request =
    POST_chat string "string option" "string option"
      \<comment> \<open>message, session_id, email\<close>
  | POST_chat_stream string "string option" "string option" "nat option"
      \<comment> \<open>message, session_id, email, and where the client closes the stream\<close>
  | POST_email_submit string string
      \<comment> \<open>email, session_id\<close>
  | POST_email_skip string
  | POST_session_clear string

fun handle :: "env \<Rightarrow> request \<Rightarrow> sessions \<Rightarrow> sessions" where
  "handle env (POST_chat m sid e) store = snd (chat env m sid e store)"
| "handle env (POST_chat_stream m sid e k) store = snd (chat_stream env m sid e k store)"
| "handle env (POST_email_submit e sid) store = snd (submit_email env e sid store)"
| "handle env (POST_email_skip sid) store = snd (skip_email sid store)"
| "handle env (POST_session_clear sid) store = snd (clear_session sid store)"

definition skip_accepted :: "string \<Rightarrow> sessions \<Rightarrow> bool" where
  "skip_accepted sid store =
     (case fst (skip_email sid store) of
        Inl _ \<Rightarrow> False
      | Inr (EmailResponse ok _ _) \<Rightarrow> ok)"

text \<open>
  A run of the server on a list of requests, each with the globals and the clock of its
  moment, and the number of skips that the run accepts for one session id, counted since
  the entry of that id was last cleared.
\<close>

fun skips_after :: "string \<Rightarrow> request \<Rightarrow> sessions \<Rightarrow> nat \<Rightarrow> nat" where
  "skips_after sid (POST_email_skip sid') store n =
     (if sid' = sid \<and> skip_accepted sid store then Suc n else n)"
| "skips_after sid (POST_session_clear sid') store n = (if sid' = sid then 0 else n)"
| "skips_after sid _ store n = n"

fun run :: "(env \<times> request) list \<Rightarrow> sessions \<Rightarrow> sessions" where
  "run [] store = store"
| "run ((env, r) # rs) store = run rs (handle env r store)"

fun accepted_skips :: "string \<Rightarrow> (env \<times> request) list \<Rightarrow> sessions \<Rightarrow> nat \<Rightarrow> nat" where
  "accepted_skips sid [] store n = n"
| "accepted_skips sid ((env, r) # rs) store n =
     accepted_skips sid rs (handle env r store) (skips_after sid r store n)"

text \<open>The session that a chat request addresses: the stored one, or a new one.\<close>

definition addressed :: "env \<Rightarrow> string option \<Rightarrow> sessions \<Rightarrow> session" where
  "addressed env rsid store =
     (case store (request_session_id env rsid) of
        None \<Rightarrow> new_session (now_isoformat env) | Some s \<Rightarrow> s)"

text \<open>
  What holds of a session and the number of skips accepted for it, as long as no email
  was provided.
\<close>

definition session_inv :: "session \<Rightarrow> nat \<Rightarrow> bool" where
  "session_inv s n =
     (\<not> email_provided s \<longrightarrow>
        skip_count s = int n \<and> n \<le> 1 \<and> query_count s \<le> FREE_QUERY_LIMIT + int n)"

definition store_inv :: "string \<Rightarrow> sessions \<Rightarrow> nat \<Rightarrow> bool" where
  "store_inv sid store n = (case store sid of None \<Rightarrow> n = 0 | Some s \<Rightarrow> session_inv s n)"

section \<open>The session of the chat UI (UI.py)\<close>

record current_session = session_core +
  session_id :: "string option"
  pending_message :: "string option"

definition initial_session :: current_session where
  "initial_session =
     \<lparr>query_count = 0, email_provided = False, user_email = None, skip_count = 0,
      session_id = None, pending_message = None\<rparr>"

text \<open>
  What a handler shows. \<open>run_query\<close> reads the session only to log; its call is recorded
  with its arguments.
\<close>

datatype ui_output =
    Unchanged
  | RunQuery string bool
      \<comment> \<open>\<open>run_query(message, history, as_pending)\<close>\<close>
  | EmailCard string
      \<comment> \<open>the message, shown with the email prompt card\<close>
  | SubmissionError string
      \<comment> \<open>the status message, shown with the email prompt card\<close>
  | NoPending
  | EmailRequired

definition UI_submit_email ::
  "env \<Rightarrow> string \<Rightarrow> current_session \<Rightarrow> (string \<times> bool) \<times> current_session" where
  "UI_submit_email env email cs =
     (case the_auth_manager env of
        None \<Rightarrow> ((''Email system unavailable'', False), cs)
      | Some am \<Rightarrow>
          if email = [] \<or> py_strip email = []
          then ((''Please enter a valid email address'', False), cs)
          else
            (let sid = request_session_id env (session_id cs);
                 cs1 = cs\<lparr>session_id := Some sid\<rparr>
             in case save_email_only am email sid of
                  Result ok msg \<Rightarrow>
                    if ok then (('' '', True),
                                cs1\<lparr>email_provided := True, user_email := Some email\<rparr>)
                    else (('' '' @ msg, False), cs1)))"

definition process_normal_message ::
  "env \<Rightarrow> string \<Rightarrow> current_session \<Rightarrow> ui_output \<times> current_session" where
  "process_normal_message env message cs =
     (let cs1 = cs\<lparr>session_id := Some (request_session_id env (session_id cs))\<rparr>
      in if email_provided cs1 then (RunQuery message False, cs1)
         else
           (let cs2 = cs1\<lparr>query_count := query_count cs1 + 1\<rparr>
            in if query_count cs2 \<le> FREE_QUERY_LIMIT then (RunQuery message False, cs2)
               else (EmailCard message, cs2\<lparr>pending_message := Some message\<rparr>)))"

definition handle_email_submission ::
  "env \<Rightarrow> string \<Rightarrow> current_session \<Rightarrow> ui_output \<times> current_session" where
  "handle_email_submission env message cs =
     (let email = py_strip (py_replace message ''EMAIL_SUBMIT:'' []);
          ((status_msg, ok), cs1) = UI_submit_email env email cs
      in if ok then
           (let pending = pending_message cs1;
                cs2 = cs1\<lparr>pending_message := None, email_provided := True, skip_count := 0\<rparr>
            in case pending of
                 None \<Rightarrow> (Unchanged, cs2)
               | Some p \<Rightarrow> if p = [] then (Unchanged, cs2) else (RunQuery p True, cs2))
         else (SubmissionError status_msg, cs1))"

definition handle_skip_email :: "current_session \<Rightarrow> ui_output \<times> current_session" where
  "handle_skip_email cs =
     (case pending_message cs of
        None \<Rightarrow> (NoPending, cs)
      | Some pending \<Rightarrow>
          if pending = [] then (NoPending, cs)
          else if skip_count cs = 0
          then (RunQuery pending True, cs\<lparr>skip_count := 1, pending_message := None\<rparr>)
          else (EmailRequired, cs))"

definition chat_handler ::
  "env \<Rightarrow> string \<Rightarrow> current_session \<Rightarrow> ui_output \<times> current_session" where
  "chat_handler env message cs =
     (if message = [] \<or> py_strip message = [] then (Unchanged, cs)
      else if startswith message ''EMAIL_SUBMIT:'' then handle_email_submission env message cs
      else if message = ''SKIP_EMAIL'' then handle_skip_email cs
      else process_normal_message env message cs)"

fun ui_run :: "(env \<times> string) list \<Rightarrow> current_session \<Rightarrow> current_session" where
  "ui_run [] cs = cs"
| "ui_run ((env, message) # rest) cs = ui_run rest (snd (chat_handler env message cs))"

definition email_accepted :: "ui_output \<Rightarrow> bool" where
  \<comment> \<open>what \<open>handle_email_submission\<close> shows when the submission succeeded\<close>
  "email_accepted out = (case out of SubmissionError _ \<Rightarrow> False | _ \<Rightarrow> True)"

definition ui_skip_accepted :: "current_session \<Rightarrow> bool" where
  "ui_skip_accepted cs = (case fst (handle_skip_email cs) of RunQuery _ _ \<Rightarrow> True | _ \<Rightarrow> False)"

section \<open>The generation adapter (llm_config.py)\<close>

text \<open>
  One call of \<open>generate_content(prompt, stream=True)\<close> and the iteration over its response:
  the chunk texts that arrive, and whether the call or the iteration then raises.
\<close>

record attempt =
  texts :: "string list"
  raises :: bool

text \<open>
  \<open>GeminiLLM\<close> as \<open>stream\<close> uses it: \<open>max_retries\<close>, and the backend, which answers a prompt
  anew at every call.
\<close>

record GeminiLLM =
  max_retries :: int
  generate_content :: "string \<Rightarrow> nat \<Rightarrow> attempt"

datatype llm_event = Yield string | Sleep nat
  \<comment> \<open>what the generator does: \<open>yield\<close> a text, or \<open>time.sleep\<close> for that many seconds\<close>

definition degraded_message :: string where
  "degraded_message =
     ''I'm having trouble processing your request right now. Please try again later.''"

definition delivered :: "attempt \<Rightarrow> string list" where
  \<comment> \<open>\<open>if chunk.text: yield chunk.text\<close>\<close>
  "delivered a = filter (\<lambda>t. t \<noteq> []) (texts a)"

fun retry_loop :: "(nat \<Rightarrow> attempt) \<Rightarrow> int \<Rightarrow> nat list \<Rightarrow> llm_event list" where
  "retry_loop backend retries [] = []"
| "retry_loop backend retries (attempt # rest) =
     (let a = backend attempt
      in map Yield (delivered a) @
         (if \<not> raises a then []
          else if int attempt = retries - 1 then [Yield degraded_message]
          else Sleep (2 ^ attempt) # retry_loop backend retries rest))"

definition sent_prompt :: "string \<Rightarrow> string" where
  \<comment> \<open>the prompt that reaches the backend: very long prompts are truncated\<close>
  "sent_prompt prompt =
     (if length prompt > 30000 then take 30000 prompt @ ''...[truncated]'' else prompt)"

definition stream :: "GeminiLLM \<Rightarrow> string \<Rightarrow> llm_event list" where
  "stream llm prompt =
     (if prompt = [] \<or> py_strip prompt = [] then [Yield ''Please provide a valid question.'']
      else retry_loop (generate_content llm (sent_prompt prompt)) (max_retries llm)
             [0 ..< nat (max_retries llm)])"

fun yields :: "llm_event list \<Rightarrow> string list" where
  "yields [] = []"
| "yields (Yield s # evs) = s # yields evs"
| "yields (Sleep _ # evs) = yields evs"


section \<open>Source citations (chatbot.py)\<close>

fun py_in :: "string \<Rightarrow> string \<Rightarrow> bool" where
  \<comment> \<open>\<open>needle in s\<close> on strings\<close>
  "py_in needle [] = (needle = [])"
| "py_in needle (c # cs) = (startswith (c # cs) needle \<or> py_in needle cs)"

fun str_nat :: "nat \<Rightarrow> string" where
  \<comment> \<open>\<open>str(n)\<close>, the decimal digits of a natural number\<close>
  "str_nat n =
     (if n < 10 then [''0123456789'' ! n] else str_nat (n div 10) @ [''0123456789'' ! (n mod 10)])"

declare str_nat.simps [simp del]

text \<open>
  A retrieved document: its text and its metadata, a dictionary of strings.
\<close>

record document =
  page_content :: string
  metadata :: "string \<rightharpoonup> string"

definition get_or :: "(string \<rightharpoonup> string) \<Rightarrow> string \<Rightarrow> string \<Rightarrow> string" where
  \<comment> \<open>\<open>d.get(key, default)\<close>\<close>
  "get_or d key dflt = (case d key of None \<Rightarrow> dflt | Some v \<Rightarrow> v)"

definition doc_score :: "document \<Rightarrow> int" where
  \<comment> \<open>the body of the scoring loop\<close>
  "doc_score doc =
     (let title = get_or (metadata doc) ''title'' [];
          url = (if get_or (metadata doc) ''url'' [] \<noteq> [] then get_or (metadata doc) ''url'' []
                 else get_or (metadata doc) ''source'' []);
          score0 = 0;
          score1 = (if py_in ''srmist'' (py_lower title) \<or> py_in ''srmist'' (py_lower url)
                    then score0 + 2 else score0);
          score2 = (if length title > 20 \<and> title \<noteq> ''University Information''
                    then score1 + 1 else score1);
          score3 = (if length (page_content doc) > 500 then score2 + 1 else score2)
      in score3)"

fun score_docs :: "document list \<Rightarrow> (int \<times> document) list \<Rightarrow> (int \<times> document) list" where
  \<comment> \<open>the scoring loop, appending to \<open>scored_docs\<close>\<close>
  "score_docs [] scored_docs = scored_docs"
| "score_docs (doc # docs) scored_docs = score_docs docs (scored_docs @ [(doc_score doc, doc)])"

definition sort_reverse :: "(int \<times> document) list \<Rightarrow> (int \<times> document) list" where
  \<comment> \<open>\<open>scored_docs.sort(key=lambda x: x[0], reverse=True)\<close>: descending, and stable\<close>
  "sort_reverse scored_docs = sort_key (\<lambda>x. - fst x) scored_docs"

fun render_sources :: "nat \<Rightarrow> document list \<Rightarrow> string \<Rightarrow> string" where
  \<comment> \<open>the loop over \<open>enumerate(selected_docs, 1)\<close>, appending to \<open>sources_info\<close>\<close>
  "render_sources i [] sources_info = sources_info"
| "render_sources i (doc # docs) sources_info =
     (let title = get_or (metadata doc) ''title'' ''University Information'';
          source_url = get_or (metadata doc) ''url'' []
      in if source_url \<noteq> [] \<and> source_url \<noteq> ''Unknown''
         then
           (let title' = (if length title > 60 then take 57 title @ ''...'' else title)
            in render_sources (Suc i) docs
                 (sources_info @ str_nat i @ ''. ['' @ title' @ '']('' @ source_url @ '')''
                    @ [CHR 0x0A]))
         else render_sources (Suc i) docs sources_info)"

definition format_sources :: "document list \<Rightarrow> string" where
  "format_sources docs =
     (if docs = [] then []
      else
        (let scored_docs = sort_reverse (score_docs docs []);
             num_sources = min 3 (length scored_docs);
             selected_docs = map snd (take num_sources scored_docs)
         in render_sources 1 selected_docs [CHR 0x0A, CHR 0x0A, CHR '' '', CHR 0x0A]))"

text \<open>The parts of the result, named.\<close>

definition selected :: "document list \<Rightarrow> document list" where
  "selected docs = map snd (take 3 (sort_reverse (score_docs docs [])))"

definition shown_title :: "document \<Rightarrow> string" where
  "shown_title doc =
     (let title = get_or (metadata doc) ''title'' ''University Information''
      in if length title > 60 then take 57 title @ ''...'' else title)"

definition has_url :: "document \<Rightarrow> bool" where
  "has_url doc = (get_or (metadata doc) ''url'' [] \<noteq> [] \<and> get_or (metadata doc) ''url'' [] \<noteq> ''Unknown'')"

definition source_line :: "nat \<times> document \<Rightarrow> string" where
  "source_line = (\<lambda>(i, doc).
     str_nat i @ ''. ['' @ shown_title doc @ '']('' @ get_or (metadata doc) ''url'' [] @ '')''
       @ [CHR 0x0A])"


section \<open>The answer formatter (chatbot.py)\<close>

subsection \<open>The regular expressions of the formatter\<close>

fun find_sub :: "string \<Rightarrow> string \<Rightarrow> (string \<times> string) option" where
  \<comment> \<open>the first occurrence of \<open>needle\<close>: what is before it and what is after it\<close>
  "find_sub needle [] = (if needle = [] then Some ([], []) else None)"
| "find_sub needle (c # cs) =
     (if startswith (c # cs) needle then Some ([], drop (length needle) (c # cs))
      else map_option (\<lambda>(before, after). (c # before, after)) (find_sub needle cs))"

text \<open>
  \<open>re.search\<close> of \<open>start(.*?)end\<close> with \<open>re.DOTALL\<close>, for literal tags: the match begins at
  the first occurrence of \<open>start\<close> and ends with the first occurrence of \<open>end\<close> after
  it. When no \<open>end\<close> follows the first \<open>start\<close>, none follows a later one either. The result
  is the text before the match, the group, and the text after the match.
\<close>

definition search_block :: "string \<Rightarrow> string \<Rightarrow> string \<Rightarrow> (string \<times> string \<times> string) option" where
  "search_block start_tag end_tag s =
     (case find_sub start_tag s of
        None \<Rightarrow> None
      | Some (before, rest) \<Rightarrow>
          (case find_sub end_tag rest of
             None \<Rightarrow> None
           | Some (inner, after) \<Rightarrow> Some (before, inner, after)))"

text \<open>
  \<open>re.sub\<close> of \<open>start.*?end\<close> with \<open>re.DOTALL\<close>: the matches are found from the left and do
  not overlap; \<open>repl\<close> gives the replacement of a match.
\<close>

function sub_block :: "string \<Rightarrow> string \<Rightarrow> (string \<Rightarrow> string) \<Rightarrow> string \<Rightarrow> string" where
  "sub_block start_tag end_tag repl [] = []"
| "sub_block start_tag end_tag repl (c # cs) =
     (if start_tag \<noteq> [] \<and> startswith (c # cs) start_tag
      then (case find_sub end_tag (drop (length start_tag) (c # cs)) of
              None \<Rightarrow> c # sub_block start_tag end_tag repl cs
            | Some (inner, after) \<Rightarrow>
                repl (start_tag @ inner @ end_tag) @ sub_block start_tag end_tag repl after)
      else c # sub_block start_tag end_tag repl cs)"
  by pat_completeness auto
termination
proof -
  have shorter: "find_sub needle s = Some (b, a) \<Longrightarrow> length a \<le> length s" for needle s b a
    by (induction s arbitrary: b) (auto split: if_splits)
  show ?thesis
    by (relation "measure (\<lambda>(st, en, repl, s). length s)")
       (auto dest!: shorter simp: neq_Nil_conv)
qed

text \<open>
  \<open>re.sub(r'<<([^>]*)>>', '', s)\<close>: after \<open><<\<close> the class takes every character up to the
  next \<open>>\<close>, and the match succeeds when \<open>>>\<close> stands there.
\<close>

function strip_markers :: "string \<Rightarrow> string" where
  "strip_markers [] = []"
| "strip_markers (c # cs) =
     (if startswith (c # cs) ''<<''
         \<and> startswith (dropWhile (\<lambda>x. x \<noteq> CHR ''>'') (drop 2 (c # cs))) ''>>''
      then strip_markers (drop 2 (dropWhile (\<lambda>x. x \<noteq> CHR ''>'') (drop 2 (c # cs))))
      else c # strip_markers cs)"
  by pat_completeness auto
termination
proof (relation "measure length", goal_cases)
  case 1
  then show ?case by simp
next
  case (2 c cs)
  have "length (dropWhile (\<lambda>x. x \<noteq> CHR ''>'') (drop 2 (c # cs))) \<le> length (drop 2 (c # cs))"
    by (rule length_dropWhile_le)
  then show ?case by simp
next
  case (3 c cs)
  then show ?case by simp
qed

subsection \<open>What the formatter takes from Python's libraries\<close>

datatype py_exception = JSONDecodeError | AttributeError | TypeError | re_error | OtherException

datatype json =
    JNull | JBool bool | JNumber string | JString string
  | JArray "json list" | JObject "(string \<times> json) list"
  \<comment> \<open>a value that \<open>json.loads\<close> returns; an object lists its items in the order of the dict\<close>

text \<open>
  The library functions whose results the formatter uses and the model does not compute:
  \<open>json.loads\<close>; \<open>str\<close> of a table cell that is neither \<open>None\<close> nor a string; and the
  compilation of a replacement template that contains a backslash, which raises
  \<open>re.error\<close> or gives the replacement of each match.
\<close>

record py_lib =
  json_loads :: "string \<Rightarrow> py_exception + json"
  py_str :: "json \<Rightarrow> string"
  compile_template :: "string \<Rightarrow> (string \<Rightarrow> string) option"

definition re_sub_block ::
  "py_lib \<Rightarrow> string \<Rightarrow> string \<Rightarrow> string \<Rightarrow> string \<Rightarrow> py_exception + string" where
  \<comment> \<open>\<open>re.sub\<close> of \<open>start.*?end\<close> with a replacement string: literal when it has no backslash\<close>
  "re_sub_block lib start_tag end_tag repl s =
     (if CHR 0x5C \<notin> set repl then Inr (sub_block start_tag end_tag (\<lambda>_. repl) s)
      else case compile_template lib repl of
             None \<Rightarrow> Inl re_error
           | Some expand \<Rightarrow> Inr (sub_block start_tag end_tag expand s))"

fun py_join :: "string \<Rightarrow> string list \<Rightarrow> string" where
  "py_join sep [] = []"
| "py_join sep [x] = x"
| "py_join sep (x # y # ys) = x @ sep @ py_join sep (y # ys)"

definition py_iter :: "json \<Rightarrow> py_exception + json list" where
  \<comment> \<open>iterating over a value: a list gives its elements, a string its characters, a dict its keys\<close>
  "py_iter v =
     (case v of
        JArray xs \<Rightarrow> Inr xs
      | JString s \<Rightarrow> Inr (map (\<lambda>c. JString [c]) s)
      | JObject items \<Rightarrow> Inr (map (\<lambda>(k, _). JString k) items)
      | _ \<Rightarrow> Inl TypeError)"

fun all_strings :: "json list \<Rightarrow> py_exception + string list" where
  \<comment> \<open>\<open>str.join\<close> accepts strings only\<close>
  "all_strings [] = Inr []"
| "all_strings (JString s # xs) =
     (case all_strings xs of Inl e \<Rightarrow> Inl e | Inr ss \<Rightarrow> Inr (s # ss))"
| "all_strings (_ # xs) = Inl TypeError"

definition cell_text :: "py_lib \<Rightarrow> json \<Rightarrow> string" where
  \<comment> \<open>\<open>str(cell) if cell is not None else ""\<close>\<close>
  "cell_text lib cell = (case cell of JNull \<Rightarrow> [] | JString s \<Rightarrow> s | _ \<Rightarrow> py_str lib cell)"

fun format_rows :: "py_lib \<Rightarrow> json list \<Rightarrow> string \<Rightarrow> py_exception + string" where
  \<comment> \<open>the loop over \<open>rows\<close>, appending to \<open>markdown\<close>\<close>
  "format_rows lib [] markdown = Inr markdown"
| "format_rows lib (row # rows) markdown =
     (case py_iter row of
        Inl e \<Rightarrow> Inl e
      | Inr cells \<Rightarrow>
          format_rows lib rows
            (markdown @ ''| '' @ py_join '' | '' (map (cell_text lib) cells) @ '' |'' @ [CHR 0x0A]))"

definition dict_get :: "(string \<times> json) list \<Rightarrow> string \<Rightarrow> json \<Rightarrow> json" where
  "dict_get items key dflt = (case map_of items key of None \<Rightarrow> dflt | Some v \<Rightarrow> v)"

definition build_markdown :: "py_lib \<Rightarrow> json \<Rightarrow> py_exception + string" where
  \<comment> \<open>from \<open>table_data.get('headers', [])\<close> to the end of the loop over the rows\<close>
  "build_markdown lib table_data =
     (case table_data of
        JObject items \<Rightarrow>
          (let headers = dict_get items ''headers'' (JArray []);
               rows = dict_get items ''rows'' (JArray [])
           in case py_iter headers of
                Inl e \<Rightarrow> Inl e
              | Inr hs \<Rightarrow>
                  (case all_strings hs of
                     Inl e \<Rightarrow> Inl e
                   | Inr header_texts \<Rightarrow>
                       (let markdown = [CHR 0x0A] @ ''| '' @ py_join '' | '' header_texts @ '' |''
                                         @ [CHR 0x0A];
                            markdown' = markdown @ ''|''
                                         @ py_join ''|'' (map (\<lambda>_. ''---'') hs) @ ''|''
                                         @ [CHR 0x0A]
                        in case py_iter rows of
                             Inl e \<Rightarrow> Inl e
                           | Inr rs \<Rightarrow> format_rows lib rs markdown')))
      | _ \<Rightarrow> Inl AttributeError)"

subsection \<open>\<open>_parse_and_format_response\<close>\<close>

definition MARKDOWN_TABLE :: string where "MARKDOWN_TABLE = ''<<MARKDOWN_TABLE>>''"
definition END_MARKDOWN_TABLE :: string where "END_MARKDOWN_TABLE = ''<<END_MARKDOWN_TABLE>>''"
definition TABLE_JSON :: string where "TABLE_JSON = ''<<TABLE_JSON>>''"
definition END_TABLE_JSON :: string where "END_TABLE_JSON = ''<<END_TABLE_JSON>>''"

definition remove_leftover_markers :: "string \<Rightarrow> string" where
  \<comment> \<open>the last part of the function, from \<open># Remove any leftover markers\<close>\<close>
  "remove_leftover_markers raw_response =
     (let cleaned = raw_response;
          cleaned1 = py_replace cleaned MARKDOWN_TABLE [];
          cleaned2 = py_replace cleaned1 END_MARKDOWN_TABLE [];
          cleaned3 = sub_block TABLE_JSON END_TABLE_JSON (\<lambda>_. []) cleaned2;
          cleaned4 = strip_markers cleaned3
      in py_strip cleaned4)"

definition parse_and_format_response :: "py_lib \<Rightarrow> string \<Rightarrow> py_exception + string" where
  "parse_and_format_response lib raw_response =
     (case search_block MARKDOWN_TABLE END_MARKDOWN_TABLE raw_response of
        Some (_, group1, _) \<Rightarrow>
          (let markdown_table = py_strip group1;
               cleaned = sub_block TABLE_JSON END_TABLE_JSON (\<lambda>_. []) raw_response
           in case re_sub_block lib MARKDOWN_TABLE END_MARKDOWN_TABLE markdown_table cleaned of
                Inl e \<Rightarrow> Inl e
              | Inr cleaned' \<Rightarrow> Inr (py_strip cleaned'))
      | None \<Rightarrow>
          (case search_block TABLE_JSON END_TABLE_JSON raw_response of
             Some (_, group1, _) \<Rightarrow>
               (case json_loads lib (py_strip group1) of
                  Inl JSONDecodeError \<Rightarrow> Inr (remove_leftover_markers raw_response)
                | Inl e \<Rightarrow> Inl e
                | Inr table_data \<Rightarrow>
                    (case build_markdown lib table_data of
                       Inl JSONDecodeError \<Rightarrow> Inr (remove_leftover_markers raw_response)
                     | Inl e \<Rightarrow> Inl e
                     | Inr markdown \<Rightarrow>
                         (case re_sub_block lib TABLE_JSON END_TABLE_JSON markdown raw_response of
                            Inl JSONDecodeError \<Rightarrow> Inr (remove_leftover_markers raw_response)
                          | Inl e \<Rightarrow> Inl e
                          | Inr cleaned \<Rightarrow> Inr (py_strip cleaned))))
           | None \<Rightarrow> Inr (remove_leftover_markers raw_response)))"

subsection \<open>\<open>_query_streaming\<close>\<close>






section \<open>Example values\<close>

definition demo_lib :: py_lib where
  "demo_lib =
     \<lparr>json_loads = (\<lambda>s. if s = ''{\"headers\": [\"A\", \"B\"], \"rows\": [[\"1\", null]]}''
                         then Inr (JObject [(''headers'', JArray [JString ''A'', JString ''B'']),
                                            (''rows'', JArray [JArray [JString ''1'', JNull]])])
                         else Inl JSONDecodeError),
      py_str = (\<lambda>v. ''?''),
      compile_template = (\<lambda>t. None)\<rparr>"


definition flaky_llm :: GeminiLLM where
  "flaky_llm = \<lparr>max_retries = 3,
                generate_content = (\<lambda>prompt n. \<lparr>texts = [''Hel''], raises = True\<rparr>)\<rparr>"

definition recovering_llm :: GeminiLLM where
  "recovering_llm = \<lparr>max_retries = 3,
                generate_content = (\<lambda>prompt n. if n = 0 then \<lparr>texts = [''Hel''], raises = True\<rparr>
                                                else \<lparr>texts = [''Hel'', [], ''lo''], raises = False\<rparr>)\<rparr>"


definition long_title :: string where
  "long_title = ''SRMIST Admissions 2025: Eligibility, Fees and Key Dates - 1''"

definition doc_a :: document where
  "doc_a = \<lparr>page_content = ''fees'', metadata = [''title'' \<mapsto> long_title, ''url'' \<mapsto> ''https://x.y/a'']\<rparr>"

definition doc_b :: document where
  "doc_b = \<lparr>page_content = ''hostel'', metadata = [''title'' \<mapsto> ''Hostel'', ''url'' \<mapsto> ''Unknown'']\<rparr>"

definition demo_bot :: chatbot where
  "demo_bot =
     \<lparr>query = (\<lambda>m. (''answer'', [])),
      query_stream = (\<lambda>m. [\<lparr>content = ''ans'', sources = [], is_done = False\<rparr>,
                            \<lparr>content = ''answer'', sources = [], is_done = True\<rparr>])\<rparr>"

definition demo_env :: env where
  "demo_env =
     \<lparr>the_chatbot = Some demo_bot, the_auth_manager = Some \<lparr>db_raises = False\<rparr>,
      now_isoformat = ''2025-01-01T00:00:00'', now_timestamp = ''1735689600.0''\<rparr>"

definition at_limit :: session where
  "at_limit =
     \<lparr>query_count = 2, email_provided = False, user_email = None, skip_count = 0,
      created_at = ''t0''\<rparr>"

definition authenticated :: session where
  "authenticated =
     \<lparr>query_count = 0, email_provided = True, user_email = Some ''a@b.com'', skip_count = 0,
      created_at = ''t0''\<rparr>"

definition ui_blocked :: current_session where
  "ui_blocked =
     \<lparr>query_count = 3, email_provided = False, user_email = None, skip_count = 0,
      session_id = Some ''session_1'', pending_message = Some ''q3''\<rparr>"

definition demo_requests :: "(env \<times> request) list" where
  "demo_requests =
     [(demo_env, POST_chat ''q1'' (Some ''s1'') None),
      (demo_env, POST_chat_stream ''q2'' (Some ''s1'') None None),
      (demo_env, POST_chat_stream ''q3'' (Some ''s1'') None None),
      (demo_env, POST_email_skip ''s1''),
      (demo_env, POST_chat_stream ''q3'' (Some ''s1'') None None),
      (demo_env, POST_chat_stream ''q4'' (Some ''s1'') None None),
      (demo_env, POST_email_skip ''s1'')]"

definition three_messages :: "(env \<times> string) list" where
  "three_messages = [(demo_env, ''q1''), (demo_env, ''q2''), (demo_env, ''q3'')]"

definition later_requests :: "(env \<times> request) list" where
  "later_requests =
     [(demo_env, POST_chat_stream ''q5'' (Some ''s1'') None None),
      (demo_env, POST_email_skip ''s1''),
      (demo_env, POST_session_clear ''s2''),
      (demo_env, POST_chat ''q6'' (Some ''s1'') None)]"

definition skipped_once :: session where
  "skipped_once =
     \<lparr>query_count = 3, email_provided = False, user_email = None, skip_count = 1,
      created_at = ''t0''\<rparr>"

section \<open>Facts about the session endpoints\<close>

lemma generate_snd:
  "snd (generate cb m sid k s) = s \<or> snd (generate cb m sid k s) = s\<lparr>query_count := query_count s + 1\<rparr>"
  by (auto simp: generate_def Let_def split: option.splits prod.splits)

lemma chat_effect:
  "\<exists>s'. (snd (chat env m rsid e store) = store \<or>
         snd (chat env m rsid e store) = store(request_session_id env rsid \<mapsto> s'))
     \<and> (s' = addressed env rsid store
        \<or> (\<not> email_provided (addressed env rsid store)
            \<and> s' = (addressed env rsid store)\<lparr>email_provided := True, user_email := e\<rparr>)
        \<or> (\<not> email_provided (addressed env rsid store)
            \<and> query_count (addressed env rsid store) < FREE_QUERY_LIMIT
            \<and> s' = (addressed env rsid store)\<lparr>query_count := query_count (addressed env rsid store) + 1\<rparr>))"
  by (auto simp: chat_def addressed_def get_or_create_session_def Let_def split: option.splits prod.splits)

lemma goc_eq:
  "get_or_create_session (now_isoformat env) (request_session_id env rsid) store =
     (addressed env rsid store,
      case store (request_session_id env rsid) of
        None \<Rightarrow> store(request_session_id env rsid \<mapsto> addressed env rsid store)
      | Some s \<Rightarrow> store)"
  by (simp add: get_or_create_session_def addressed_def split: option.splits)

lemma chat_stream_snd:
  assumes "the_chatbot env = Some cb"
  shows "snd (chat_stream env m rsid e k store) =
     (let sid = request_session_id env rsid;
          s = addressed env rsid store;
          w = s\<lparr>email_provided := True, user_email := e, skip_count := 0\<rparr>;
          store1 = (case store sid of None \<Rightarrow> store(sid \<mapsto> s) | Some _ \<Rightarrow> store)
      in if email_provided s \<or> query_count s < FREE_QUERY_LIMIT
            \<or> (query_count s = FREE_QUERY_LIMIT \<and> \<not> truthy e \<and> skip_count s = 1)
         then store(sid \<mapsto> snd (generate cb (py_strip m) sid k s))
         else if truthy e then store(sid \<mapsto> snd (generate cb (py_strip m) sid k w))
         else store1)"
  using assms
  by (simp add: chat_stream_def goc_eq Let_def split: prod.splits option.splits)

lemma chat_stream_effect:
  "\<exists>s' s''. (snd (chat_stream env m rsid e k store) = store \<or>
         snd (chat_stream env m rsid e k store) = store(request_session_id env rsid \<mapsto> s''))
     \<and> (s'' = s' \<or> s'' = s'\<lparr>query_count := query_count s' + 1\<rparr>
             \<and> (email_provided s' \<or> query_count s' < FREE_QUERY_LIMIT
                 \<or> query_count s' = FREE_QUERY_LIMIT \<and> skip_count s' = 1))
     \<and> (s' = addressed env rsid store
        \<or> (\<not> email_provided (addressed env rsid store)
            \<and> s' = (addressed env rsid store)\<lparr>email_provided := True, user_email := e, skip_count := 0\<rparr>))"
proof (cases "the_chatbot env")
  case None
  then show ?thesis by (auto simp: chat_stream_def)
next
  case (Some cb)
  let ?sid = "request_session_id env rsid"
  let ?s = "addressed env rsid store"
  let ?w = "?s\<lparr>email_provided := True, user_email := e, skip_count := 0\<rparr>"
  let ?r = "snd (chat_stream env m rsid e k store)"
  have "(?r = store \<or> ?r = store(?sid \<mapsto> ?s))
      \<or> ((email_provided ?s \<or> query_count ?s < FREE_QUERY_LIMIT
                 \<or> query_count ?s = FREE_QUERY_LIMIT \<and> skip_count ?s = 1)
          \<and> ?r = store(?sid \<mapsto> snd (generate cb (py_strip m) ?sid k ?s)))
      \<or> (\<not> email_provided ?s
          \<and> ?r = store(?sid \<mapsto> snd (generate cb (py_strip m) ?sid k ?w)))"
    unfolding chat_stream_snd[OF Some] Let_def
    by (cases "store ?sid") auto
  then consider (same) "?r = store \<or> ?r = store(?sid \<mapsto> ?s)"
    | (proc) "(email_provided ?s \<or> query_count ?s < FREE_QUERY_LIMIT
                 \<or> query_count ?s = FREE_QUERY_LIMIT \<and> skip_count ?s = 1)"
        "?r = store(?sid \<mapsto> snd (generate cb (py_strip m) ?sid k ?s))"
    | (mail) "\<not> email_provided ?s"
        "?r = store(?sid \<mapsto> snd (generate cb (py_strip m) ?sid k ?w))"
    by blast
  then show ?thesis
  proof cases
    case same
    then show ?thesis by auto
  next
    case proc
    with generate_snd[of cb "py_strip m" ?sid k ?s] show ?thesis
      by (intro exI[of _ ?s] exI[of _ "snd (generate cb (py_strip m) ?sid k ?s)"]) auto
  next
    case mail
    with generate_snd[of cb "py_strip m" ?sid k ?w] show ?thesis
      by (intro exI[of _ ?w] exI[of _ "snd (generate cb (py_strip m) ?sid k ?w)"]) auto
  qed
qed


lemma addressed_inv:
  "store_inv sid store n \<Longrightarrow> request_session_id env rsid = sid \<Longrightarrow> session_inv (addressed env rsid store) n"
  by (auto simp: store_inv_def addressed_def session_inv_def new_session_def FREE_QUERY_LIMIT_def split: option.splits)

lemma store_inv_upd:
  "store_inv sid store n \<Longrightarrow> (sid' = sid \<Longrightarrow> session_inv s' n) \<Longrightarrow> store_inv sid (store(sid' \<mapsto> s')) n"
  by (auto simp: store_inv_def)

lemma chat_inv: "store_inv sid store n \<Longrightarrow> store_inv sid (snd (chat env m rsid e store)) n"
proof -
  assume a: "store_inv sid store n"
  obtain s' where
    1: "snd (chat env m rsid e store) = store \<or>
         snd (chat env m rsid e store) = store(request_session_id env rsid \<mapsto> s')"
    and 2: "s' = addressed env rsid store
        \<or> (\<not> email_provided (addressed env rsid store)
            \<and> s' = (addressed env rsid store)\<lparr>email_provided := True, user_email := e\<rparr>)
        \<or> (\<not> email_provided (addressed env rsid store)
            \<and> query_count (addressed env rsid store) < FREE_QUERY_LIMIT
            \<and> s' = (addressed env rsid store)\<lparr>query_count := query_count (addressed env rsid store) + 1\<rparr>)"
    using chat_effect[of env m rsid e store] by blast
  have "request_session_id env rsid = sid \<Longrightarrow> session_inv s' n"
    using addressed_inv[OF a, of env rsid] 2 by (auto simp: session_inv_def)
  with a 1 show ?thesis by (auto simp: store_inv_def)
qed

lemma chat_stream_inv: "store_inv sid store n \<Longrightarrow> store_inv sid (snd (chat_stream env m rsid e k store)) n"
proof -
  assume a: "store_inv sid store n"
  obtain s' s'' where
    1: "snd (chat_stream env m rsid e k store) = store \<or>
         snd (chat_stream env m rsid e k store) = store(request_session_id env rsid \<mapsto> s'')"
    and 2: "s'' = s' \<or> s'' = s'\<lparr>query_count := query_count s' + 1\<rparr>
             \<and> (email_provided s' \<or> query_count s' < FREE_QUERY_LIMIT
                 \<or> query_count s' = FREE_QUERY_LIMIT \<and> skip_count s' = 1)"
    and 3: "s' = addressed env rsid store
        \<or> (\<not> email_provided (addressed env rsid store)
            \<and> s' = (addressed env rsid store)\<lparr>email_provided := True, user_email := e, skip_count := 0\<rparr>)"
    using chat_stream_effect[of env m rsid e k store] by blast
  have "request_session_id env rsid = sid \<Longrightarrow> session_inv s'' n"
    using addressed_inv[OF a, of env rsid] 2 3 by (auto simp: session_inv_def)
  with a 1 show ?thesis by (auto simp: store_inv_def)
qed

lemma submit_email_inv: "store_inv sid store n \<Longrightarrow> store_inv sid (snd (submit_email env e sid' store)) n"
  by (auto simp: submit_email_def store_inv_def session_inv_def Let_def split: option.splits result_dict.splits)

lemma skip_email_inv:
  "store_inv sid store n \<Longrightarrow> store_inv sid (snd (skip_email sid' store)) (skips_after sid (POST_email_skip sid') store n)"
  by (auto simp: skip_email_def skip_accepted_def store_inv_def session_inv_def Let_def FREE_QUERY_LIMIT_def split: option.splits)

lemma clear_session_inv:
  "store_inv sid store n \<Longrightarrow> store_inv sid (snd (clear_session sid' store)) (skips_after sid (POST_session_clear sid') store n)"
  by (auto simp: clear_session_def store_inv_def Let_def split: option.splits)

lemma handle_inv:
  "store_inv sid store n \<Longrightarrow> store_inv sid (handle env r store) (skips_after sid r store n)"
  by (cases r) (simp_all add: chat_inv chat_stream_inv submit_email_inv skip_email_inv clear_session_inv del: skips_after.simps(1,2))

lemma run_inv:
  "store_inv sid store n \<Longrightarrow> store_inv sid (run reqs store) (accepted_skips sid reqs store n)"
proof (induction reqs arbitrary: store n)
  case Nil
  then show ?case by simp
next
  case (Cons a reqs)
  obtain env r where a: "a = (env, r)" by (cases a)
  show ?case unfolding a using Cons.IH[OF handle_inv[OF Cons.prems]] by simp
qed

lemma addressed_Some:
  "store sid = Some s \<Longrightarrow> request_session_id env rsid = sid \<Longrightarrow> addressed env rsid store = s"
  by (simp add: addressed_def)

lemma chat_keeps:
  assumes "store sid = Some s"
  shows "\<exists>s1. snd (chat env m rsid e store) sid = Some s1 \<and> query_count s \<le> query_count s1
           \<and> (email_provided s \<longrightarrow> email_provided s1)"
proof -
  obtain s' where
    1: "snd (chat env m rsid e store) = store \<or>
         snd (chat env m rsid e store) = store(request_session_id env rsid \<mapsto> s')"
    and 2: "s' = addressed env rsid store
        \<or> (\<not> email_provided (addressed env rsid store)
            \<and> s' = (addressed env rsid store)\<lparr>email_provided := True, user_email := e\<rparr>)
        \<or> (\<not> email_provided (addressed env rsid store)
            \<and> query_count (addressed env rsid store) < FREE_QUERY_LIMIT
            \<and> s' = (addressed env rsid store)\<lparr>query_count := query_count (addressed env rsid store) + 1\<rparr>)"
    using chat_effect[of env m rsid e store] by blast
  show ?thesis
  proof (cases "request_session_id env rsid = sid")
    case True
    with 1 2 assms addressed_Some[of store sid s env rsid] show ?thesis by auto
  next
    case False
    with 1 assms show ?thesis by auto
  qed
qed

lemma chat_stream_keeps:
  assumes "store sid = Some s"
  shows "\<exists>s1. snd (chat_stream env m rsid e k store) sid = Some s1 \<and> query_count s \<le> query_count s1
           \<and> (email_provided s \<longrightarrow> email_provided s1)"
proof -
  obtain s' s'' where
    1: "snd (chat_stream env m rsid e k store) = store \<or>
         snd (chat_stream env m rsid e k store) = store(request_session_id env rsid \<mapsto> s'')"
    and 2: "s'' = s' \<or> s'' = s'\<lparr>query_count := query_count s' + 1\<rparr>
             \<and> (email_provided s' \<or> query_count s' < FREE_QUERY_LIMIT
                 \<or> query_count s' = FREE_QUERY_LIMIT \<and> skip_count s' = 1)"
    and 3: "s' = addressed env rsid store
        \<or> (\<not> email_provided (addressed env rsid store)
            \<and> s' = (addressed env rsid store)\<lparr>email_provided := True, user_email := e, skip_count := 0\<rparr>)"
    using chat_stream_effect[of env m rsid e k store] by blast
  show ?thesis
  proof (cases "request_session_id env rsid = sid")
    case True
    with 1 2 3 assms addressed_Some[of store sid s env rsid] show ?thesis by auto
  next
    case False
    with 1 assms show ?thesis by auto
  qed
qed

lemma submit_email_keeps:
  assumes "store sid = Some s"
  shows "\<exists>s1. snd (submit_email env e sid' store) sid = Some s1 \<and> query_count s \<le> query_count s1
           \<and> (email_provided s \<longrightarrow> email_provided s1)"
  using assms
  by (auto simp: submit_email_def Let_def split: option.splits result_dict.splits)

lemma skip_email_keeps:
  assumes "store sid = Some s"
  shows "\<exists>s1. snd (skip_email sid' store) sid = Some s1 \<and> query_count s \<le> query_count s1
           \<and> (email_provided s \<longrightarrow> email_provided s1)"
  using assms
  by (auto simp: skip_email_def Let_def split: option.splits)

lemma clear_session_keeps:
  assumes "store sid = Some s" "sid' \<noteq> sid"
  shows "snd (clear_session sid' store) sid = Some s"
  using assms by (auto simp: clear_session_def Let_def)

lemma handle_keeps:
  assumes "store sid = Some s" "r \<noteq> POST_session_clear sid"
  shows "\<exists>s1. handle env r store sid = Some s1 \<and> query_count s \<le> query_count s1
           \<and> (email_provided s \<longrightarrow> email_provided s1)"
proof (cases r)
  case (POST_chat m rsid e)
  then show ?thesis using chat_keeps[of store sid s env m rsid e] assms(1) by simp
next
  case (POST_chat_stream m rsid e k)
  then show ?thesis using chat_stream_keeps[of store sid s env m rsid e k] assms(1) by simp
next
  case (POST_email_submit e sid')
  then show ?thesis using submit_email_keeps[of store sid s env e sid'] assms(1) by simp
next
  case (POST_email_skip sid')
  then show ?thesis using skip_email_keeps[of store sid s sid'] assms(1) by simp
next
  case (POST_session_clear sid')
  then show ?thesis using clear_session_keeps[of store sid s sid'] assms by auto
qed

lemma run_keeps:
  assumes "store sid = Some s" "\<forall>(env, r) \<in> set reqs. r \<noteq> POST_session_clear sid"
  shows "\<exists>s1. run reqs store sid = Some s1 \<and> query_count s \<le> query_count s1
           \<and> (email_provided s \<longrightarrow> email_provided s1)"
  using assms
proof (induction reqs arbitrary: store s)
  case Nil
  then show ?case by simp
next
  case (Cons a reqs)
  obtain env r where a: "a = (env, r)" by (cases a)
  from Cons.prems a have r: "r \<noteq> POST_session_clear sid" by auto
  from handle_keeps[of store sid s r env] Cons.prems(1) r obtain s1 where
    s1: "handle env r store sid = Some s1" "query_count s \<le> query_count s1"
        "email_provided s \<longrightarrow> email_provided s1" by blast
  from Cons.IH[of "handle env r store" s1] s1(1) Cons.prems(2) a obtain s2 where
    "run reqs (handle env r store) sid = Some s2" "query_count s1 \<le> query_count s2"
        "email_provided s1 \<longrightarrow> email_provided s2" by auto
  with s1 show ?case unfolding a by auto
qed

lemma UI_submit_email_qc: "query_count (snd (UI_submit_email env email cs)) = query_count cs"
  by (simp add: UI_submit_email_def Let_def split: option.splits result_dict.splits)

lemma handle_email_submission_qc:
  "query_count (snd (handle_email_submission env m cs)) = query_count cs"
proof -
  obtain st ok cs1 where u: "UI_submit_email env (py_strip (py_replace m ''EMAIL_SUBMIT:'' [])) cs = ((st, ok), cs1)"
    by (metis surj_pair)
  with UI_submit_email_qc[of env "py_strip (py_replace m ''EMAIL_SUBMIT:'' [])" cs]
  have "query_count cs1 = query_count cs" by simp
  with u show ?thesis
    by (simp add: handle_email_submission_def Let_def split: option.splits)
qed

lemma handle_skip_email_qc: "query_count (snd (handle_skip_email cs)) = query_count cs"
  by (simp add: handle_skip_email_def split: option.splits)

lemma process_normal_message_qc:
  "query_count cs \<le> query_count (snd (process_normal_message env m cs))"
  by (simp add: process_normal_message_def Let_def)

lemma chat_handler_mono: "query_count cs \<le> query_count (snd (chat_handler env m cs))"
  by (simp add: chat_handler_def handle_email_submission_qc handle_skip_email_qc
        process_normal_message_qc)


lemma chat_stream_fst_allowed:
  assumes "the_chatbot env = Some cb" "store sid = Some s" "sid \<noteq> []"
    "email_provided s \<or> query_count s < FREE_QUERY_LIMIT
            \<or> (query_count s = FREE_QUERY_LIMIT \<and> \<not> truthy e \<and> skip_count s = 1)"
  shows "chat_stream env m (Some sid) e k store =
           (Inr (fst (generate cb (py_strip m) sid k s)),
            store(sid \<mapsto> snd (generate cb (py_strip m) sid k s)))"
  using assms
  by (auto simp: chat_stream_def request_session_id_def get_or_create_session_def Let_def
        split: prod.splits)

lemma generate_complete:
  "snd (generate cb m sid None s) = s\<lparr>query_count := query_count s + 1\<rparr>"
  by (simp add: generate_def Let_def split: prod.splits)


lemma UI_submit_email_email:
  "email_provided cs \<or> snd (fst (UI_submit_email env email cs)) \<Longrightarrow>
     email_provided (snd (UI_submit_email env email cs))"
  by (auto simp: UI_submit_email_def Let_def split: option.splits result_dict.splits)

lemma handle_email_submission_email:
  "email_provided cs \<or> email_accepted (fst (handle_email_submission env m cs)) \<Longrightarrow>
     email_provided (snd (handle_email_submission env m cs))"
proof -
  assume a: "email_provided cs \<or> email_accepted (fst (handle_email_submission env m cs))"
  obtain st ok cs1 where
    u: "UI_submit_email env (py_strip (py_replace m ''EMAIL_SUBMIT:'' [])) cs = ((st, ok), cs1)"
    by (metis surj_pair)
  show ?thesis
  proof (cases ok)
    case True
    with u show ?thesis
      by (simp add: handle_email_submission_def Let_def split: option.splits)
  next
    case False
    with u a have "email_provided cs"
      by (simp add: handle_email_submission_def email_accepted_def)
    with UI_submit_email_email[of cs env "py_strip (py_replace m ''EMAIL_SUBMIT:'' [])"] u
    have "email_provided cs1" by simp
    with u False show ?thesis by (simp add: handle_email_submission_def)
  qed
qed

lemma chat_handler_email:
  "email_provided cs \<Longrightarrow> email_provided (snd (chat_handler env m cs))"
  by (simp add: chat_handler_def handle_email_submission_email handle_skip_email_def
        process_normal_message_def Let_def split: option.splits)

lemma ui_run_email: "email_provided cs \<Longrightarrow> email_provided (ui_run msgs cs)"
proof (induction msgs arbitrary: cs)
  case Nil
  then show ?case by simp
next
  case (Cons a msgs)
  obtain env m where a: "a = (env, m)" by (cases a)
  from Cons.IH[of "snd (chat_handler env m cs)"] chat_handler_email[OF Cons.prems, of env m]
  show ?case unfolding a by simp
qed

lemma chat_fst_allowed:
  assumes "the_chatbot env = Some cb" "store sid = Some s" "sid \<noteq> []" "email_provided s"
  shows "fst (chat env m (Some sid) e store) =
           Inr (ChatResponse (fst (query cb (py_strip m))) (Some (snd (query cb (py_strip m))))
                  sid False None)"
  using assms
  by (auto simp: chat_def request_session_id_def get_or_create_session_def Let_def
        split: prod.splits)

lemma UI_invalid_email_keeps_session:
  assumes "\<not> validate_email (py_strip (py_replace m ''EMAIL_SUBMIT:'' []))"
  shows "\<exists>msg. fst (handle_email_submission env m cs) = SubmissionError msg
        \<and> session_core.truncate (snd (handle_email_submission env m cs)) = session_core.truncate cs
        \<and> pending_message (snd (handle_email_submission env m cs)) = pending_message cs"
  using assms
  by (auto simp: handle_email_submission_def UI_submit_email_def save_email_only_def Let_def
        session_core.truncate_def split: option.splits)

lemma demo_run:
  "run demo_requests Map.empty ''s1'' =
     Some \<lparr>query_count = 3, email_provided = False, user_email = None, skip_count = 1,
           created_at = ''2025-01-01T00:00:00''\<rparr>"
  by (simp add: demo_requests_def chat_def chat_stream_def skip_email_def demo_env_def demo_bot_def
        request_session_id_def get_or_create_session_def new_session_def generate_def truthy_def
        FREE_QUERY_LIMIT_def Let_def)

section \<open>Facts about the generation adapter and the citations\<close>

lemma yields_append: "yields (xs @ ys) = yields xs @ yields ys"
  by (induction xs rule: yields.induct) auto

lemma yields_map_Yield: "yields (map Yield xs) = xs"
  by (induction xs) auto

lemma retry_loop_all_fail:
  assumes "\<forall>i \<in> set idx. raises (backend i)" and "idx \<noteq> []"
    and "int (last idx) = retries - 1" and "\<forall>i \<in> set (butlast idx). int i \<noteq> retries - 1"
  shows "yields (retry_loop backend retries idx) =
           concat (map (\<lambda>i. delivered (backend i)) idx) @ [degraded_message]"
  using assms
proof (induction idx)
  case Nil
  then show ?case by simp
next
  case (Cons i idx)
  show ?case
  proof (cases "idx = []")
    case True
    with Cons.prems show ?thesis by (simp add: Let_def yields_append yields_map_Yield)
  next
    case False
    with Cons.prems have "int i \<noteq> retries - 1" by simp
    moreover from Cons.IH Cons.prems False
    have "yields (retry_loop backend retries idx) =
           concat (map (\<lambda>i. delivered (backend i)) idx) @ [degraded_message]" by simp
    ultimately show ?thesis using Cons.prems
      by (simp add: Let_def yields_append yields_map_Yield)
  qed
qed

lemma retry_loop_first_success:
  assumes "\<forall>i \<in> set pre. raises (backend i) \<and> int i \<noteq> retries - 1" and "\<not> raises (backend j)"
  shows "yields (retry_loop backend retries (pre @ j # post)) =
           concat (map (\<lambda>i. delivered (backend i)) (pre @ [j]))"
  using assms
  by (induction pre) (simp_all add: Let_def yields_append yields_map_Yield)


lemma score_docs_eq: "score_docs docs acc = acc @ map (\<lambda>d. (doc_score d, d)) docs"
  by (induction docs arbitrary: acc) auto

lemma render_sources_eq:
  "render_sources i docs acc =
     acc @ concat (map source_line (filter (\<lambda>(i, d). has_url d) (List.enumerate i docs)))"
  by (induction docs arbitrary: i acc)
     (simp_all add: Let_def has_url_def source_line_def shown_title_def)

lemma format_sources_eq:
  "docs \<noteq> [] \<Longrightarrow> format_sources docs =
     [CHR 0x0A, CHR 0x0A, CHR '' '', CHR 0x0A]
       @ concat (map source_line (filter (\<lambda>(i, d). has_url d) (List.enumerate 1 (selected docs))))"
  by (simp add: format_sources_def selected_def Let_def render_sources_eq min_def)

lemma scored_fst:
  "x \<in> set (sort_reverse (score_docs docs [])) \<Longrightarrow> fst x = doc_score (snd x)"
  by (auto simp: sort_reverse_def score_docs_eq)

lemma scored_mset:
  "mset (map snd (sort_reverse (score_docs docs []))) = mset docs"
proof -
  have "mset (sort_reverse (score_docs docs [])) = mset (map (\<lambda>d. (doc_score d, d)) docs)"
    by (simp add: sort_reverse_def score_docs_eq)
  then have "image_mset snd (mset (sort_reverse (score_docs docs [])))
           = image_mset snd (mset (map (\<lambda>d. (doc_score d, d)) docs))" by simp
  then show ?thesis by (simp add: image_mset.compositionality comp_def)
qed

lemma selected_length: "length (selected docs) = min 3 (length docs)"
  by (simp add: selected_def sort_reverse_def score_docs_eq)

lemma selected_rest:
  "mset docs = mset (selected docs) + mset (map snd (drop 3 (sort_reverse (score_docs docs []))))"
proof -
  let ?xs = "sort_reverse (score_docs docs [])"
  have "mset (map snd ?xs) = mset (map snd (take 3 ?xs @ drop 3 ?xs))" by simp
  also have "\<dots> = mset (selected docs) + mset (map snd (drop 3 ?xs))"
    unfolding selected_def by (simp del: append_take_drop_id)
  finally show ?thesis using scored_mset[of docs] by simp
qed

lemma sorted_scores:
  "sorted (map (\<lambda>x. - fst x) (sort_reverse (score_docs docs [])))"
  by (simp add: sort_reverse_def)

lemma selected_descending:
  "sorted_wrt (\<lambda>a b. doc_score b \<le> doc_score a) (selected docs)"
proof -
  let ?xs = "sort_reverse (score_docs docs [])"
  have "sorted (map (\<lambda>x. - fst x) (take 3 ?xs))"
    using sorted_scores[of docs] by (simp add: take_map[symmetric] sorted_wrt_take)
  then have "sorted_wrt (\<lambda>a b. fst b \<le> fst a) (take 3 ?xs)"
    by (simp add: sorted_wrt_map)
  then have "sorted_wrt (\<lambda>a b. doc_score (snd b) \<le> doc_score (snd a)) (take 3 ?xs)"
    by (rule sorted_wrt_mono_rel[rotated]) (auto dest!: in_set_takeD scored_fst)
  then show ?thesis by (simp add: selected_def sorted_wrt_map)
qed

lemma selected_top:
  assumes "a \<in> set (selected docs)" and "b \<in># mset docs - mset (selected docs)"
  shows "doc_score b \<le> doc_score a"
proof -
  let ?xs = "sort_reverse (score_docs docs [])"
  from assms(1) obtain x where x: "x \<in> set (take 3 ?xs)" "a = snd x"
    by (auto simp: selected_def)
  from assms(2) selected_rest[of docs] have "b \<in> set (map snd (drop 3 ?xs))"
    by (metis add_diff_cancel_left' set_mset_mset)
  then obtain y where y: "y \<in> set (drop 3 ?xs)" "b = snd y" by auto
  have "sorted (map (\<lambda>x. - fst x) (take 3 ?xs @ drop 3 ?xs))"
    using sorted_scores[of docs] by simp
  then have "- fst x \<le> - fst y"
    unfolding map_append sorted_append using x(1) y(1) by auto
  moreover have "fst x = doc_score a" "fst y = doc_score b"
    using x y scored_fst[of x docs] scored_fst[of y docs]
    by (auto dest: in_set_takeD in_set_dropD)
  ultimately show ?thesis by simp
qed

lemma shown_title_cases:
  "length (shown_title doc) \<le> 60
   \<and> (length (get_or (metadata doc) ''title'' ''University Information'') > 60 \<longrightarrow>
        shown_title doc = take 57 (get_or (metadata doc) ''title'' ''University Information'') @ ''...'')
   \<and> (length (get_or (metadata doc) ''title'' ''University Information'') \<le> 60 \<longrightarrow>
        shown_title doc = get_or (metadata doc) ''title'' ''University Information'')"
  by (simp add: shown_title_def Let_def)

section \<open>Facts about the formatter and the streamed answer\<close>

lemma startswith_trans:
  "startswith s n \<Longrightarrow> startswith n p \<Longrightarrow> startswith s p"
  unfolding startswith_def
  by (metis append_eq_conv_conj append_take_drop_id append.assoc)

lemma py_in_tail: "\<not> py_in p (c # cs) \<Longrightarrow> \<not> py_in p cs"
  by simp

lemma py_in_drop: "\<not> py_in p s \<Longrightarrow> \<not> py_in p (drop n s)"
proof (induction s arbitrary: n)
  case Nil
  then show ?case by simp
next
  case (Cons c cs)
  then show ?case by (cases n) auto
qed

lemma no_marker_no_start:
  assumes "\<not> py_in ''<<'' s" and "startswith n ''<<''"
  shows "\<not> startswith s n"
proof
  assume "startswith s n"
  then have a: "startswith s ''<<''" using assms(2) by (rule startswith_trans)
  then have "s \<noteq> []" by (auto simp: startswith_def)
  then obtain c cs where "s = c # cs" by (cases s) auto
  with a have "py_in ''<<'' s" by simp
  with assms(1) show False ..
qed

lemma find_sub_none:
  "\<not> py_in ''<<'' s \<Longrightarrow> startswith n ''<<'' \<Longrightarrow> find_sub n s = None"
proof (induction s)
  case Nil
  then show ?case by (auto simp: startswith_def)
next
  case (Cons c cs)
  from Cons.prems have "\<not> startswith (c # cs) n" by (rule no_marker_no_start)
  moreover from Cons have "find_sub n cs = None" by simp
  ultimately show ?case by simp
qed

lemma replace_from_none:
  "\<not> py_in ''<<'' s \<Longrightarrow> startswith old ''<<'' \<Longrightarrow> replace_from s old new = s"
proof (induction s)
  case Nil
  then show ?case by simp
next
  case (Cons c cs)
  from Cons.prems have "\<not> startswith (c # cs) old" by (rule no_marker_no_start)
  moreover from Cons have "replace_from cs old new = cs" by simp
  ultimately show ?case by simp
qed

lemma sub_block_none:
  "\<not> py_in ''<<'' s \<Longrightarrow> startswith st ''<<'' \<Longrightarrow> sub_block st en f s = s"
proof (induction s)
  case Nil
  then show ?case by simp
next
  case (Cons c cs)
  from Cons.prems have "\<not> startswith (c # cs) st" by (rule no_marker_no_start)
  moreover from Cons have "sub_block st en f cs = cs" by simp
  ultimately show ?case by simp
qed

lemma strip_markers_none: "\<not> py_in ''<<'' s \<Longrightarrow> strip_markers s = s"
proof (induction s)
  case Nil
  then show ?case by simp
next
  case (Cons c cs)
  from Cons.prems have "\<not> startswith (c # cs) ''<<''" by simp
  moreover from Cons have "strip_markers cs = cs" by simp
  ultimately show ?case by simp
qed

lemma dropWhile_rev_fixed:
  assumes "t = [] \<or> \<not> P (hd t)"
  shows "dropWhile P (rev (dropWhile P (rev t))) = rev (dropWhile P (rev t))"
proof (cases "dropWhile P (rev t) = []")
  case True
  show ?thesis unfolding True by simp
next
  case False
  let ?u = "dropWhile P (rev t)"
  have "rev t = takeWhile P (rev t) @ ?u" by simp
  with False have "last (rev t) = last ?u" by (metis last_appendR)
  moreover from False have "t \<noteq> []" by auto
  ultimately have "last ?u = hd t" by (simp add: last_rev)
  with assms \<open>t \<noteq> []\<close> have "\<not> P (hd (rev ?u))" using False by (simp add: hd_rev)
  then show ?thesis by (simp add: dropWhile_eq_self_iff)
qed

lemma py_strip_idem: "py_strip (py_strip s) = py_strip s"
proof -
  let ?t = "dropWhile py_isspace s"
  have "?t = [] \<or> \<not> py_isspace (hd ?t)" using hd_dropWhile[of py_isspace s] by blast
  from dropWhile_rev_fixed[where P = py_isspace and t = ?t] this show ?thesis
    by (simp add: py_strip_def)
qed

lemma remove_leftover_markers_plain:
  "\<not> py_in ''<<'' s \<Longrightarrow> remove_leftover_markers s = py_strip s"
  by (simp add: remove_leftover_markers_def py_replace_def MARKDOWN_TABLE_def END_MARKDOWN_TABLE_def
        TABLE_JSON_def replace_from_none sub_block_none strip_markers_none startswith_def Let_def)

lemma parse_plain:
  assumes "\<not> py_in ''<<'' s"
  shows "parse_and_format_response lib s = Inr (py_strip s)"
proof -
  have "find_sub MARKDOWN_TABLE s = None" "find_sub TABLE_JSON s = None"
    using assms by (simp_all add: find_sub_none MARKDOWN_TABLE_def TABLE_JSON_def startswith_def)
  then show ?thesis
    by (simp add: parse_and_format_response_def search_block_def
          remove_leftover_markers_plain[OF assms])
qed

lemma parse_stripped:
  "parse_and_format_response lib x = Inr y \<Longrightarrow> py_strip y = y"
  by (auto simp: parse_and_format_response_def remove_leftover_markers_def Let_def py_strip_idem
        split: option.splits sum.splits py_exception.splits prod.splits)

lemma formatter_fixed_on_marker_free_output:
  assumes "parse_and_format_response lib x = Inr y" and "\<not> py_in ''<<'' y"
  shows "parse_and_format_response lib y = Inr y"
  using parse_plain[OF assms(2), of lib] parse_stripped[OF assms(1)] by simp

lemma startswith_take: "startswith (take n s) p \<Longrightarrow> startswith s p"
  unfolding startswith_def
  by (metis append_eq_conv_conj append_take_drop_id append.assoc)

lemma py_in_take: "\<not> py_in p s \<Longrightarrow> \<not> py_in p (take n s)"
proof (induction s arbitrary: n)
  case Nil
  then show ?case by simp
next
  case (Cons c cs)
  show ?case
  proof (cases n)
    case 0
    with Cons.prems show ?thesis by (cases p) (auto simp: startswith_def)
  next
    case (Suc m)
    from Cons.prems have a: "\<not> startswith (c # cs) p" "\<not> py_in p cs" by simp_all
    from a(1) have "\<not> startswith (take (Suc m) (c # cs)) p" using startswith_take by blast
    moreover from Cons.IH[OF a(2)] have "\<not> py_in p (take m cs)" .
    ultimately show ?thesis using Suc by simp
  qed
qed

lemma py_in_dropWhile: "\<not> py_in p s \<Longrightarrow> \<not> py_in p (dropWhile P s)"
  by (induction s) (auto split: if_splits)

lemma py_strip_plain: "\<not> py_in p s \<Longrightarrow> \<not> py_in p (py_strip s)"
proof -
  assume a: "\<not> py_in p s"
  let ?t = "dropWhile py_isspace s"
  have "rev (dropWhile py_isspace (rev t)) =
          take (length t - length (takeWhile py_isspace (rev t))) t" for t
    by (subst dropWhile_eq_drop) (simp add: rev_drop)
  then have "py_strip s = take (length ?t - length (takeWhile py_isspace (rev ?t))) ?t"
    unfolding py_strip_def by blast
  with py_in_take[OF py_in_dropWhile[OF a]] show ?thesis by simp
qed










lemma retry_loop_all_fail_events:
  assumes "\<forall>i \<in> set idx. raises (backend i)"
    and "\<forall>i \<in> set (butlast idx). int i \<noteq> retries - 1"
  shows "retry_loop backend retries idx =
           concat (map (\<lambda>i. map Yield (delivered (backend i))
                              @ (if int i = retries - 1 then [Yield degraded_message]
                                 else [Sleep (2 ^ i)])) idx)"
  using assms
proof (induction idx)
  case Nil
  then show ?case by simp
next
  case (Cons i idx)
  show ?case
  proof (cases "idx = []")
    case True
    with Cons.prems show ?thesis by (simp add: Let_def)
  next
    case False
    with Cons.prems have "int i \<noteq> retries - 1" by simp
    moreover from Cons.IH Cons.prems False
    have "retry_loop backend retries idx =
           concat (map (\<lambda>i. map Yield (delivered (backend i))
                              @ (if int i = retries - 1 then [Yield degraded_message]
                                 else [Sleep (2 ^ i)])) idx)" by simp
    ultimately show ?thesis using Cons.prems by (simp add: Let_def)
  qed
qed

lemma retry_loop_first_success_events:
  assumes "\<forall>i \<in> set pre. raises (backend i) \<and> int i \<noteq> retries - 1" and "\<not> raises (backend j)"
  shows "retry_loop backend retries (pre @ j # post) =
           concat (map (\<lambda>i. map Yield (delivered (backend i)) @ [Sleep (2 ^ i)]) pre)
             @ map Yield (delivered (backend j))"
  using assms
  by (induction pre) (simp_all add: Let_def)

lemma stream_yields:
  assumes "prompt \<noteq> []" and "py_strip prompt \<noteq> []" and "0 < max_retries llm"
  shows "((\<forall>i < nat (max_retries llm). raises (generate_content llm (sent_prompt prompt) i)) \<longrightarrow>
           yields (stream llm prompt) =
             concat (map (\<lambda>i. delivered (generate_content llm (sent_prompt prompt) i))
                       [0 ..< nat (max_retries llm)]) @ [degraded_message])
       \<and> (j < nat (max_retries llm) \<and> \<not> raises (generate_content llm (sent_prompt prompt) j)
            \<and> (\<forall>i < j. raises (generate_content llm (sent_prompt prompt) i)) \<longrightarrow>
           yields (stream llm prompt) =
             concat (map (\<lambda>i. delivered (generate_content llm (sent_prompt prompt) i))
                       [0 ..< Suc j]))"
proof (intro conjI impI)
  let ?n = "nat (max_retries llm)"
  let ?b = "generate_content llm (sent_prompt prompt)"
  have s: "stream llm prompt = retry_loop ?b (max_retries llm) [0 ..< ?n]"
    using assms(1,2) by (simp add: stream_def sent_prompt_def Let_def)
  {
    assume a: "\<forall>i < ?n. raises (?b i)"
    from assms(3) obtain k where k: "?n = Suc k" by (cases "?n") auto
    have l: "[0 ..< ?n] \<noteq> []" "last [0 ..< ?n] = ?n - 1" "butlast [0 ..< ?n] = [0 ..< ?n - 1]"
      unfolding k by simp_all
    show "yields (stream llm prompt) = concat (map (\<lambda>i. delivered (?b i)) [0 ..< ?n]) @ [degraded_message]"
      unfolding s
      apply (rule retry_loop_all_fail)
      using a l assms(3) by auto
  }
  {
    assume a: "j < ?n \<and> \<not> raises (?b j) \<and> (\<forall>i < j. raises (?b i))"
    then have sp: "[0 ..< ?n] = [0 ..< j] @ j # [Suc j ..< ?n]"
      by (metis le0 upt_conv_Cons upt_add_eq_append le_add_diff_inverse less_imp_le_nat)
    have "yields (retry_loop ?b (max_retries llm) ([0 ..< j] @ j # [Suc j ..< ?n]))
           = concat (map (\<lambda>i. delivered (?b i)) ([0 ..< j] @ [j]))"
      apply (rule retry_loop_first_success)
      using a by auto
    then show "yields (stream llm prompt) = concat (map (\<lambda>i. delivered (?b i)) [0 ..< Suc j])"
      unfolding s sp[symmetric] by simp
  }
qed

lemma stream_events:
  assumes "prompt \<noteq> []" and "py_strip prompt \<noteq> []" and "0 < max_retries llm"
  shows "((\<forall>i < nat (max_retries llm). raises (generate_content llm (sent_prompt prompt) i)) \<longrightarrow>
           stream llm prompt =
             concat (map (\<lambda>i. map Yield (delivered (generate_content llm (sent_prompt prompt) i))
                                @ (if Suc i = nat (max_retries llm) then [Yield degraded_message]
                                   else [Sleep (2 ^ i)]))
                       [0 ..< nat (max_retries llm)]))
       \<and> (j < nat (max_retries llm) \<and> \<not> raises (generate_content llm (sent_prompt prompt) j)
            \<and> (\<forall>i < j. raises (generate_content llm (sent_prompt prompt) i)) \<longrightarrow>
           stream llm prompt =
             concat (map (\<lambda>i. map Yield (delivered (generate_content llm (sent_prompt prompt) i))
                                @ [Sleep (2 ^ i)]) [0 ..< j])
               @ map Yield (delivered (generate_content llm (sent_prompt prompt) j)))"
proof (intro conjI impI)
  let ?n = "nat (max_retries llm)"
  let ?b = "generate_content llm (sent_prompt prompt)"
  have s: "stream llm prompt = retry_loop ?b (max_retries llm) [0 ..< ?n]"
    using assms(1,2) by (simp add: stream_def)
  {
    assume a: "\<forall>i < ?n. raises (?b i)"
    from assms(3) obtain k where k: "?n = Suc k" by (cases "?n") auto
    have l: "butlast [0 ..< ?n] = [0 ..< ?n - 1]" unfolding k by simp
    have "retry_loop ?b (max_retries llm) [0 ..< ?n] =
            concat (map (\<lambda>i. map Yield (delivered (?b i))
                              @ (if int i = max_retries llm - 1 then [Yield degraded_message]
                                 else [Sleep (2 ^ i)])) [0 ..< ?n])"
      apply (rule retry_loop_all_fail_events)
      using a l assms(3) by auto
    moreover have "(int i = max_retries llm - 1) = (Suc i = ?n)" for i
      using assms(3) by auto
    ultimately show "stream llm prompt =
             concat (map (\<lambda>i. map Yield (delivered (?b i))
                                @ (if Suc i = ?n then [Yield degraded_message]
                                   else [Sleep (2 ^ i)])) [0 ..< ?n])"
      unfolding s by simp
  }
  {
    assume a: "j < ?n \<and> \<not> raises (?b j) \<and> (\<forall>i < j. raises (?b i))"
    then have sp: "[0 ..< ?n] = [0 ..< j] @ j # [Suc j ..< ?n]"
      by (metis le0 upt_conv_Cons upt_add_eq_append le_add_diff_inverse less_imp_le_nat)
    have "retry_loop ?b (max_retries llm) ([0 ..< j] @ j # [Suc j ..< ?n])
           = concat (map (\<lambda>i. map Yield (delivered (?b i)) @ [Sleep (2 ^ i)]) [0 ..< j])
               @ map Yield (delivered (?b j))"
      apply (rule retry_loop_first_success_events)
      using a by auto
    then show "stream llm prompt =
             concat (map (\<lambda>i. map Yield (delivered (?b i)) @ [Sleep (2 ^ i)]) [0 ..< j])
               @ map Yield (delivered (?b j))"
      unfolding s sp[symmetric] by simp
  }
qed




section \<open>The skip allowance\<close>

text \<open>
  C1, as the code has it. In the API a skip for a stored session is accepted exactly when
  \<open>query_count\<close> is the limit and \<open>skip_count\<close> is 0; accepting sets \<open>skip_count\<close> to 1 and
  nothing else, and the resent message, streamed to its end, then raises \<open>query_count\<close> to
  the limit plus one; a rejected skip changes nothing. In the UI a skip is accepted exactly
  when a message is pending and \<open>skip_count\<close> is 0, whatever \<open>query_count\<close> is; accepting
  sets \<open>skip_count\<close> to 1, clears the pending message and runs it, leaving \<open>query_count\<close>
  as it is; a rejected skip changes nothing.
\<close>

theorem skip_accepted_exactly_at_limit:
  "(store sid = Some s \<and> sid \<noteq> [] \<and> 0 \<le> skip_count s \<longrightarrow>
      (skip_accepted sid store \<longleftrightarrow> query_count s = FREE_QUERY_LIMIT \<and> skip_count s = 0)
      \<and> (skip_accepted sid store \<longrightarrow>
           snd (skip_email sid store) = store(sid \<mapsto> s\<lparr>skip_count := 1\<rparr>))
      \<and> (skip_accepted sid store \<and> the_chatbot env = Some cb \<longrightarrow>
           snd (chat_stream env m (Some sid) None None (snd (skip_email sid store))) sid
             = Some (s\<lparr>skip_count := 1, query_count := FREE_QUERY_LIMIT + 1\<rparr>))
      \<and> (\<not> skip_accepted sid store \<longrightarrow> snd (skip_email sid store) = store))
   \<and> (ui_skip_accepted cs \<longleftrightarrow> truthy (pending_message cs) \<and> skip_count cs = 0)
   \<and> (ui_skip_accepted cs \<longrightarrow>
        (\<exists>p. pending_message cs = Some p
           \<and> handle_skip_email cs
               = (RunQuery p True, cs\<lparr>skip_count := 1, pending_message := None\<rparr>)))
   \<and> (\<not> ui_skip_accepted cs \<longrightarrow> snd (handle_skip_email cs) = cs)"
proof -
  have api: "(skip_accepted sid store \<longleftrightarrow> query_count s = FREE_QUERY_LIMIT \<and> skip_count s = 0)
      \<and> (skip_accepted sid store \<longrightarrow>
           snd (skip_email sid store) = store(sid \<mapsto> s\<lparr>skip_count := 1\<rparr>))
      \<and> (skip_accepted sid store \<and> the_chatbot env = Some cb \<longrightarrow>
           snd (chat_stream env m (Some sid) None None (snd (skip_email sid store))) sid
             = Some (s\<lparr>skip_count := 1, query_count := FREE_QUERY_LIMIT + 1\<rparr>))
      \<and> (\<not> skip_accepted sid store \<longrightarrow> snd (skip_email sid store) = store)"
    if h: "store sid = Some s" "sid \<noteq> []" "0 \<le> skip_count s"
  proof -
    have acc: "skip_accepted sid store \<longleftrightarrow> query_count s = FREE_QUERY_LIMIT \<and> skip_count s = 0"
      using h by (auto simp: skip_accepted_def skip_email_def)
    have upd: "skip_accepted sid store \<Longrightarrow>
                 snd (skip_email sid store) = store(sid \<mapsto> s\<lparr>skip_count := 1\<rparr>)"
      using h by (auto simp: skip_accepted_def skip_email_def split: if_splits)
    have rej: "\<not> skip_accepted sid store \<Longrightarrow> snd (skip_email sid store) = store"
      using h by (auto simp: skip_accepted_def skip_email_def split: if_splits)
    have resend: "snd (chat_stream env m (Some sid) None None (snd (skip_email sid store))) sid
                = Some (s\<lparr>skip_count := 1, query_count := FREE_QUERY_LIMIT + 1\<rparr>)"
      if a: "skip_accepted sid store" and cb: "the_chatbot env = Some cb"
    proof -
      let ?s1 = "s\<lparr>skip_count := 1\<rparr>"
      have 1: "(store(sid \<mapsto> ?s1)) sid = Some ?s1" by simp
      have 2: "email_provided ?s1 \<or> query_count ?s1 < FREE_QUERY_LIMIT
              \<or> (query_count ?s1 = FREE_QUERY_LIMIT \<and> \<not> truthy None \<and> skip_count ?s1 = 1)"
        using a acc by (simp add: truthy_def)
      show ?thesis
        unfolding upd[OF a]
        using chat_stream_fst_allowed[of env cb "store(sid \<mapsto> ?s1)" sid ?s1 None m None]
          h(2) cb 1 2 a acc
        by (simp add: generate_complete)
    qed
    from acc upd rej resend show ?thesis by blast
  qed
  have ui1: "ui_skip_accepted cs \<longleftrightarrow> truthy (pending_message cs) \<and> skip_count cs = 0"
    by (auto simp: ui_skip_accepted_def handle_skip_email_def truthy_def split: option.splits)
  have ui2: "ui_skip_accepted cs \<Longrightarrow> (\<exists>p. pending_message cs = Some p
             \<and> handle_skip_email cs
                 = (RunQuery p True, cs\<lparr>skip_count := 1, pending_message := None\<rparr>))"
    by (auto simp: ui_skip_accepted_def handle_skip_email_def truthy_def
          split: option.splits if_splits)
  have ui3: "\<not> ui_skip_accepted cs \<Longrightarrow> snd (handle_skip_email cs) = cs"
    by (auto simp: ui_skip_accepted_def handle_skip_email_def truthy_def
          split: option.splits if_splits)
  from api ui1 ui2 ui3 show ?thesis by blast
qed

theorem skip_accepted_exactly_at_limit_witness:
  "skip_accepted ''s1'' [''s1'' \<mapsto> at_limit]
   \<and> snd (chat_stream demo_env ''fees?'' (Some ''s1'') None None
            (snd (skip_email ''s1'' [''s1'' \<mapsto> at_limit]))) ''s1''
       = Some (at_limit\<lparr>skip_count := 1, query_count := FREE_QUERY_LIMIT + 1\<rparr>)
   \<and> \<not> skip_accepted ''s1'' [''s1'' \<mapsto> skipped_once]
   \<and> snd (skip_email ''s1'' [''s1'' \<mapsto> skipped_once]) = [''s1'' \<mapsto> skipped_once]
   \<and> ui_skip_accepted ui_blocked
   \<and> handle_skip_email ui_blocked
       = (RunQuery ''q3'' True, ui_blocked\<lparr>skip_count := 1, pending_message := None\<rparr>)"
proof -
  have a: "[''s1'' \<mapsto> at_limit] ''s1'' = Some at_limit" "''s1'' \<noteq> []" "0 \<le> skip_count at_limit"
     "the_chatbot demo_env = Some demo_bot"
    by (simp_all add: at_limit_def demo_env_def)
  have b: "[''s1'' \<mapsto> skipped_once] ''s1'' = Some skipped_once" "0 \<le> skip_count skipped_once"
    by (simp_all add: skipped_once_def)
  have c: "pending_message ui_blocked = Some ''q3''" "skip_count ui_blocked = 0"
    by (simp_all add: ui_blocked_def)
  have q: "query_count at_limit = FREE_QUERY_LIMIT" "skip_count at_limit = 0"
    "query_count skipped_once \<noteq> FREE_QUERY_LIMIT" "truthy (pending_message ui_blocked)"
    by (simp_all add: at_limit_def skipped_once_def FREE_QUERY_LIMIT_def ui_blocked_def
          truthy_def)
  note t1 = skip_accepted_exactly_at_limit[where store = "[''s1'' \<mapsto> at_limit]"
            and sid = "''s1''" and s = at_limit and env = demo_env and cb = demo_bot
            and m = "''fees?''" and cs = ui_blocked]
  note t2 = skip_accepted_exactly_at_limit[where store = "[''s1'' \<mapsto> skipped_once]"
            and sid = "''s1''" and s = skipped_once and env = demo_env and cb = demo_bot
            and m = "''fees?''" and cs = ui_blocked]
  from t1 a q have 1: "skip_accepted ''s1'' [''s1'' \<mapsto> at_limit]" by blast
  from t1 a 1 have 2: "snd (chat_stream demo_env ''fees?'' (Some ''s1'') None None
            (snd (skip_email ''s1'' [''s1'' \<mapsto> at_limit]))) ''s1''
       = Some (at_limit\<lparr>skip_count := 1, query_count := FREE_QUERY_LIMIT + 1\<rparr>)" by blast
  from t2 a b q have 3: "\<not> skip_accepted ''s1'' [''s1'' \<mapsto> skipped_once]" by blast
  from t2 a b 3 have 4: "snd (skip_email ''s1'' [''s1'' \<mapsto> skipped_once]) = [''s1'' \<mapsto> skipped_once]"
    by blast
  from t1 q c have 5: "ui_skip_accepted ui_blocked" by blast
  from t1 5 c have 6: "handle_skip_email ui_blocked
       = (RunQuery ''q3'' True, ui_blocked\<lparr>skip_count := 1, pending_message := None\<rparr>)"
    by auto
  from 1 2 3 4 5 6 show ?thesis by blast
qed

text \<open>
  C1 as stated fails in the API: after an accepted skip, processing the resent message
  increments \<open>query_count\<close>.
\<close>

theorem skip_resend_counterexample:
  "skip_accepted ''s1'' [''s1'' \<mapsto> at_limit]
   \<and> map_option query_count
       (snd (chat_stream demo_env ''fees?'' (Some ''s1'') None None
               (snd (skip_email ''s1'' [''s1'' \<mapsto> at_limit]))) ''s1'')
       = Some (query_count at_limit + 1)"
  by (simp add: skip_accepted_def skip_email_def at_limit_def FREE_QUERY_LIMIT_def
        chat_stream_def demo_env_def demo_bot_def request_session_id_def
        get_or_create_session_def generate_def truthy_def Let_def)

section \<open>The quota while no email is provided\<close>

text \<open>
  C2, as the code has it. In the API, from the empty store and over every list of requests
  handled one after another, a session without email has \<open>query_count\<close> at most the limit
  plus the number of skips accepted for it, which is at most 1; no request other than
  clearing the session lowers \<open>query_count\<close>. In the UI \<open>query_count\<close> never decreases.
\<close>

theorem query_count_bounded_while_anonymous:
  "(run reqs Map.empty sid = Some s \<and> \<not> email_provided s \<longrightarrow>
       query_count s \<le> FREE_QUERY_LIMIT + int (accepted_skips sid reqs Map.empty 0)
       \<and> accepted_skips sid reqs Map.empty 0 \<le> 1)
   \<and> (store sid' = Some s0 \<and> r \<noteq> POST_session_clear sid' \<longrightarrow>
        (\<exists>s1. handle env r store sid' = Some s1 \<and> query_count s0 \<le> query_count s1))
   \<and> query_count cs \<le> query_count (snd (chat_handler env' m cs))"
proof (intro conjI impI)
  assume a: "run reqs Map.empty sid = Some s \<and> \<not> email_provided s"
  have "store_inv sid Map.empty 0" by (simp add: store_inv_def)
  from run_inv[OF this, of reqs] a
  show "query_count s \<le> FREE_QUERY_LIMIT + int (accepted_skips sid reqs Map.empty 0)"
    and "accepted_skips sid reqs Map.empty 0 \<le> 1"
    by (auto simp: store_inv_def session_inv_def)
next
  assume "store sid' = Some s0 \<and> r \<noteq> POST_session_clear sid'"
  then show "\<exists>s1. handle env r store sid' = Some s1 \<and> query_count s0 \<le> query_count s1"
    using handle_keeps[of store sid' s0 r env] by blast
next
  show "query_count cs \<le> query_count (snd (chat_handler env' m cs))"
    by (rule chat_handler_mono)
qed

theorem query_count_bounded_while_anonymous_witness:
  "run demo_requests Map.empty ''s1'' =
     Some \<lparr>query_count = 3, email_provided = False, user_email = None, skip_count = 1,
           created_at = ''2025-01-01T00:00:00''\<rparr>
   \<and> 3 \<le> FREE_QUERY_LIMIT + int (accepted_skips ''s1'' demo_requests Map.empty 0)
   \<and> accepted_skips ''s1'' demo_requests Map.empty 0 \<le> 1
   \<and> (\<exists>s1. handle demo_env (POST_email_skip ''s1'') [''s1'' \<mapsto> at_limit] ''s1'' = Some s1
          \<and> query_count at_limit \<le> query_count s1)"
proof -
  let ?s = "\<lparr>query_count = 3, email_provided = False, user_email = None, skip_count = 1,
           created_at = ''2025-01-01T00:00:00''\<rparr>"
  note t = query_count_bounded_while_anonymous[where reqs = demo_requests and sid = "''s1''"
      and s = ?s and store = "[''s1'' \<mapsto> at_limit]" and sid' = "''s1''" and ?s0.0 = at_limit
      and r = "POST_email_skip ''s1''" and env = demo_env]
  have r: "run demo_requests Map.empty ''s1'' = Some ?s" by (rule demo_run)
  have e: "\<not> email_provided ?s" "query_count ?s = 3" by simp_all
  have h: "[''s1'' \<mapsto> at_limit] ''s1'' = Some at_limit" "POST_email_skip ''s1'' \<noteq> POST_session_clear ''s1''"
    by simp_all
  from t r e have 1: "3 \<le> FREE_QUERY_LIMIT + int (accepted_skips ''s1'' demo_requests Map.empty 0)"
    "accepted_skips ''s1'' demo_requests Map.empty 0 \<le> 1" by auto
  from t h have 2: "\<exists>s1. handle demo_env (POST_email_skip ''s1'') [''s1'' \<mapsto> at_limit] ''s1'' = Some s1
          \<and> query_count at_limit \<le> query_count s1" by blast
  from r 1 2 show ?thesis by blast
qed

text \<open>
  C2 as stated fails in the UI, which counts a message before it decides: the third message
  of a new session is blocked and still counted, with no skip accepted.
\<close>

theorem ui_query_count_counterexample:
  "query_count (ui_run three_messages initial_session) = 3
   \<and> skip_count (ui_run three_messages initial_session) = 0
   \<and> \<not> email_provided (ui_run three_messages initial_session)
   \<and> \<not> (query_count (ui_run three_messages initial_session)
          \<le> FREE_QUERY_LIMIT + skip_count (ui_run three_messages initial_session))"
  by (simp add: three_messages_def initial_session_def chat_handler_def process_normal_message_def
       request_session_id_def demo_env_def py_strip_def py_isspace_def startswith_def
       FREE_QUERY_LIMIT_def Let_def)

section \<open>Sessions with an email\<close>

text \<open>
  C3 at a failing input. A session with \<open>email_provided\<close> true sends a message to the
  streaming endpoint and reads the stream to its end: \<open>query_count\<close> goes up by one. The
  same message to the non-streaming endpoint leaves it as it is.
\<close>

theorem chat_stream_counts_authenticated:
  "email_provided authenticated
   \<and> map_option query_count
        (snd (chat_stream demo_env ''fees?'' (Some ''s1'') None None [''s1'' \<mapsto> authenticated])
           ''s1'')
       = Some (query_count authenticated + 1)
   \<and> map_option query_count
        (snd (chat demo_env ''fees?'' (Some ''s1'') None [''s1'' \<mapsto> authenticated]) ''s1'')
       = Some (query_count authenticated)"
  by (simp add: authenticated_def chat_stream_def chat_def demo_env_def demo_bot_def
        request_session_id_def get_or_create_session_def generate_def truthy_def Let_def)

text \<open>
  C4. After an email submission that succeeds, and after any further requests that do not
  clear the session, the session has \<open>email_provided\<close> true, and a chat request for it,
  streaming or not, with or without an email in the request, is processed: the answer is
  the chatbot's, never a demand for an email, whatever \<open>query_count\<close> is. In the UI
  likewise: after a submission that succeeds and any further messages, a question is run
  and not held back.
\<close>

theorem email_submitted_always_allowed:
  "(submit_email env0 email sid store0 = (Inr (EmailResponse True msg x), store1)
      \<and> (\<forall>(env', r) \<in> set reqs. r \<noteq> POST_session_clear sid)
      \<and> the_chatbot env = Some cb \<longrightarrow>
      (\<exists>s. run reqs store1 sid = Some s \<and> email_provided s
         \<and> fst (chat env m (Some sid) e (run reqs store1)) =
             Inr (ChatResponse (fst (query cb (py_strip m)))
                    (Some (snd (query cb (py_strip m)))) sid False None)
         \<and> fst (chat_stream env m (Some sid) e k (run reqs store1)) =
             Inr (fst (generate cb (py_strip m) sid k s))))
   \<and> (email_accepted (fst (handle_email_submission env1 m1 cs)) \<longrightarrow>
        email_provided (ui_run msgs (snd (handle_email_submission env1 m1 cs)))
        \<and> fst (process_normal_message env2 m2
                 (ui_run msgs (snd (handle_email_submission env1 m1 cs)))) = RunQuery m2 False)"
proof (intro conjI impI)
  assume "email_accepted (fst (handle_email_submission env1 m1 cs))"
  then show ui: "email_provided (ui_run msgs (snd (handle_email_submission env1 m1 cs)))"
    using handle_email_submission_email[of cs env1 m1] by (simp add: ui_run_email)
  then show "fst (process_normal_message env2 m2
               (ui_run msgs (snd (handle_email_submission env1 m1 cs)))) = RunQuery m2 False"
    by (simp add: process_normal_message_def Let_def)
next
  assume a: "submit_email env0 email sid store0 = (Inr (EmailResponse True msg x), store1)
      \<and> (\<forall>(env', r) \<in> set reqs. r \<noteq> POST_session_clear sid)
      \<and> the_chatbot env = Some cb"
  then have sid: "sid \<noteq> []"
    by (auto simp: submit_email_def split: if_splits)
  from a obtain s1 where s1: "store1 sid = Some s1" "email_provided s1"
    by (auto simp: submit_email_def Let_def split: if_splits option.splits result_dict.splits)
  from run_keeps[of store1 sid s1 reqs] s1 a
  obtain s where s: "run reqs store1 sid = Some s" "email_provided s" by blast
  have c: "fst (chat env m (Some sid) e (run reqs store1)) =
         Inr (ChatResponse (fst (query cb (py_strip m))) (Some (snd (query cb (py_strip m))))
                sid False None)"
    using chat_fst_allowed[of env cb "run reqs store1" sid s m e] a s sid by simp
  have d: "fst (chat_stream env m (Some sid) e k (run reqs store1)) =
         Inr (fst (generate cb (py_strip m) sid k s))"
    using chat_stream_fst_allowed[of env cb "run reqs store1" sid s e m k] a s sid by simp
  from s c d show "\<exists>s. run reqs store1 sid = Some s \<and> email_provided s
         \<and> fst (chat env m (Some sid) e (run reqs store1)) =
             Inr (ChatResponse (fst (query cb (py_strip m)))
                    (Some (snd (query cb (py_strip m)))) sid False None)
         \<and> fst (chat_stream env m (Some sid) e k (run reqs store1)) =
             Inr (fst (generate cb (py_strip m) sid k s))" by blast
qed

theorem email_submitted_always_allowed_witness:
  "submit_email demo_env ''a@b.com'' ''s1'' [''s1'' \<mapsto> skipped_once]
     = (Inr (EmailResponse True ''Email saved successfully'' (Some ''s1'')),
        [''s1'' \<mapsto> skipped_once\<lparr>email_provided := True, user_email := Some ''a@b.com'',
                                    skip_count := 0\<rparr>])
   \<and> fst (chat demo_env ''q7'' (Some ''s1'') None
        (run later_requests
           [''s1'' \<mapsto> skipped_once\<lparr>email_provided := True, user_email := Some ''a@b.com'',
                                       skip_count := 0\<rparr>]))
       = Inr (ChatResponse ''answer'' (Some []) ''s1'' False None)
   \<and> fst (handle_email_submission demo_env ''EMAIL_SUBMIT:a@b.com'' ui_blocked)
       = RunQuery ''q3'' True
   \<and> fst (process_normal_message demo_env ''q5''
        (ui_run three_messages
           (snd (handle_email_submission demo_env ''EMAIL_SUBMIT:a@b.com'' ui_blocked))))
       = RunQuery ''q5'' False"
proof -
  have u: "fst (handle_email_submission demo_env ''EMAIL_SUBMIT:a@b.com'' ui_blocked)
       = RunQuery ''q3'' True"
    by (simp add: handle_email_submission_def UI_submit_email_def save_email_only_def
          validate_email_def py_lower_def py_lower_char_def local_char_def domain_char_def
          ascii_alpha_def ascii_digit_def py_replace_def startswith_def py_strip_def
          py_isspace_def demo_env_def ui_blocked_def request_session_id_def Let_def)
  then have ua: "email_accepted (fst (handle_email_submission demo_env ''EMAIL_SUBMIT:a@b.com''
                     ui_blocked))"
    by (simp add: email_accepted_def)
  let ?store1 = "[''s1'' \<mapsto> skipped_once\<lparr>email_provided := True, user_email := Some ''a@b.com'',
                                    skip_count := 0\<rparr>]"
  have 1: "submit_email demo_env ''a@b.com'' ''s1'' [''s1'' \<mapsto> skipped_once]
     = (Inr (EmailResponse True ''Email saved successfully'' (Some ''s1'')), ?store1)"
    by (simp add: validate_email_def py_lower_def py_lower_char_def local_char_def domain_char_def
        ascii_alpha_def ascii_digit_def submit_email_def save_email_only_def demo_env_def
        skipped_once_def Let_def)
  have 2: "\<forall>(env', r) \<in> set later_requests. r \<noteq> POST_session_clear ''s1''"
    by (simp add: later_requests_def)
  have 3: "the_chatbot demo_env = Some demo_bot" by (simp add: demo_env_def)
  have 4: "query demo_bot (py_strip ''q7'') = (''answer'', [])" by (simp add: demo_bot_def)
  from email_submitted_always_allowed[where ?env0.0 = demo_env and email = "''a@b.com''"
      and sid = "''s1''" and ?store0.0 = "[''s1'' \<mapsto> skipped_once]" and ?store1.0 = ?store1
      and reqs = later_requests and env = demo_env and cb = demo_bot and m = "''q7''"
      and e = None and k = None and ?env1.0 = demo_env and ?m1.0 = "''EMAIL_SUBMIT:a@b.com''"
      and cs = ui_blocked and msgs = three_messages and ?env2.0 = demo_env and ?m2.0 = "''q5''"]
    1 2 3 ua 4
  have "fst (chat demo_env ''q7'' (Some ''s1'') None (run later_requests ?store1))
       = Inr (ChatResponse ''answer'' (Some []) ''s1'' False None)"
    and "fst (process_normal_message demo_env ''q5''
        (ui_run three_messages
           (snd (handle_email_submission demo_env ''EMAIL_SUBMIT:a@b.com'' ui_blocked))))
       = RunQuery ''q5'' False" by auto
  with 1 u show ?thesis by blast
qed

section \<open>Email submission with a malformed address\<close>

text \<open>
  C5 at a failing input. The API's handler writes the session before it validates: an
  address that the format check refuses is answered with the status 400 and the message
  of the check, and the session is left with \<open>email_provided\<close> true, the address stored and
  \<open>skip_count\<close> reset.
\<close>

theorem submit_email_invalid_writes_session:
  "\<not> validate_email ''a!b@gmail.com''
   \<and> submit_email demo_env ''a!b@gmail.com'' ''s1'' [''s1'' \<mapsto> skipped_once]
       = (Inl (HTTPException 400 (Text ''Invalid email format'')),
          [''s1'' \<mapsto> skipped_once\<lparr>email_provided := True, user_email := Some ''a!b@gmail.com'',
                                      skip_count := 0\<rparr>])"
  by (simp add: validate_email_def py_lower_def py_lower_char_def local_char_def ascii_alpha_def
        ascii_digit_def submit_email_def save_email_only_def demo_env_def skipped_once_def Let_def)

section \<open>Formatting twice\<close>

text \<open>
  C6, as the code has it. When the formatter returns a text in which \<open><<\<close> does not occur,
  formatting that text again returns it unchanged; in particular, on an input without
  \<open><<\<close> the formatter returns the input stripped of surrounding white space, and returns
  the same when applied to that.
\<close>

theorem formatter_idempotent_without_markers:
  "(parse_and_format_response lib x = Inr y \<and> \<not> py_in ''<<'' y \<longrightarrow>
      parse_and_format_response lib y = Inr y)
   \<and> (\<not> py_in ''<<'' x \<longrightarrow>
        parse_and_format_response lib x = Inr (py_strip x)
        \<and> parse_and_format_response lib (py_strip x) = Inr (py_strip x))"
proof (intro conjI impI)
  assume "parse_and_format_response lib x = Inr y \<and> \<not> py_in ''<<'' y"
  then show "parse_and_format_response lib y = Inr y"
    using formatter_fixed_on_marker_free_output by blast
next
  assume a: "\<not> py_in ''<<'' x"
  then show "parse_and_format_response lib x = Inr (py_strip x)" by (rule parse_plain)
  from py_strip_plain[OF a] show "parse_and_format_response lib (py_strip x) = Inr (py_strip x)"
    by (simp add: parse_plain py_strip_idem)
qed

theorem formatter_idempotent_without_markers_witness:
  "parse_and_format_response demo_lib ''  Fees: <<MARKDOWN_TABLE>> | a | <<END_MARKDOWN_TABLE>> ok  ''
     = Inr ''Fees: | a | ok''
   \<and> parse_and_format_response demo_lib ''Fees: | a | ok'' = Inr ''Fees: | a | ok''
   \<and> parse_and_format_response demo_lib '' plain answer '' = Inr ''plain answer''
   \<and> parse_and_format_response demo_lib ''plain answer'' = Inr ''plain answer''"
proof -
  have 1: "parse_and_format_response demo_lib
             ''  Fees: <<MARKDOWN_TABLE>> | a | <<END_MARKDOWN_TABLE>> ok  '' = Inr ''Fees: | a | ok''"
    by (simp add: parse_and_format_response_def search_block_def startswith_def
         MARKDOWN_TABLE_def END_MARKDOWN_TABLE_def TABLE_JSON_def END_TABLE_JSON_def
         re_sub_block_def py_strip_def py_isspace_def Let_def)
  have 2: "\<not> py_in ''<<'' ''Fees: | a | ok''" "\<not> py_in ''<<'' '' plain answer ''"
    by (simp_all add: startswith_def)
  have 3: "py_strip '' plain answer '' = ''plain answer''"
    by (simp add: py_strip_def py_isspace_def)
  from formatter_idempotent_without_markers[of demo_lib
         "''  Fees: <<MARKDOWN_TABLE>> | a | <<END_MARKDOWN_TABLE>> ok  ''" "''Fees: | a | ok''"] 1 2
  have 4: "parse_and_format_response demo_lib ''Fees: | a | ok'' = Inr ''Fees: | a | ok''" by blast
  from formatter_idempotent_without_markers[of demo_lib "'' plain answer ''" "[]"] 2 3
  have 5: "parse_and_format_response demo_lib '' plain answer '' = Inr ''plain answer''"
    "parse_and_format_response demo_lib ''plain answer'' = Inr ''plain answer''" by auto
  from 1 4 5 show ?thesis by blast
qed

text \<open>
  C6 as stated fails when markers remain in the output. With a table block the formatter
  splices the table and leaves a stray marker where it is; applied again, it finds no
  table block and removes the marker. Without a table block, removing the marker \<open><<b>>\<close>
  brings the pieces of a new marker together, which the second application removes.
\<close>

theorem formatter_not_idempotent_counterexample:
  "parse_and_format_response demo_lib ''<<MARKDOWN_TABLE>>| a |<<END_MARKDOWN_TABLE>> <<X>>''
     = Inr ''| a | <<X>>''
   \<and> parse_and_format_response demo_lib ''| a | <<X>>'' = Inr ''| a |''
   \<and> parse_and_format_response demo_lib ''<<a><<b>>>'' = Inr ''<<a>>''
   \<and> parse_and_format_response demo_lib ''<<a>>'' = Inr []"
  by (simp add: parse_and_format_response_def search_block_def startswith_def
       MARKDOWN_TABLE_def END_MARKDOWN_TABLE_def TABLE_JSON_def END_TABLE_JSON_def
       re_sub_block_def remove_leftover_markers_def py_replace_def py_strip_def py_isspace_def
       Let_def)

section \<open>The events of a streamed answer\<close>




section \<open>Failure in the middle of a stream\<close>

text \<open>
  C8, as the code has it. For a prompt that is not blank and a positive \<open>max_retries\<close>, the
  adapter yields the non-empty chunk texts of every attempt in the order they arrive and
  never takes one back. An attempt that raises is followed, after a sleep of two to the
  power of its number in seconds, by a new attempt, whose chunks come after those already
  yielded. When every attempt raises, the texts of all attempts are followed by the fixed
  message of degradation, whether or not chunks were yielded, with no sleep after the last
  attempt; when an attempt ends without raising, the stream ends there without that
  message. The theorem gives the whole sequence of yields and sleeps in both cases.
\<close>

theorem stream_error_after_last_attempt:
  assumes "prompt \<noteq> []" and "py_strip prompt \<noteq> []" and "0 < max_retries llm"
  shows "((\<forall>i < nat (max_retries llm). raises (generate_content llm (sent_prompt prompt) i)) \<longrightarrow>
           stream llm prompt =
             concat (map (\<lambda>i. map Yield (delivered (generate_content llm (sent_prompt prompt) i))
                                @ (if Suc i = nat (max_retries llm) then [Yield degraded_message]
                                   else [Sleep (2 ^ i)]))
                       [0 ..< nat (max_retries llm)])
           \<and> yields (stream llm prompt) =
             concat (map (\<lambda>i. delivered (generate_content llm (sent_prompt prompt) i))
                       [0 ..< nat (max_retries llm)]) @ [degraded_message])
       \<and> (j < nat (max_retries llm) \<and> \<not> raises (generate_content llm (sent_prompt prompt) j)
            \<and> (\<forall>i < j. raises (generate_content llm (sent_prompt prompt) i)) \<longrightarrow>
           stream llm prompt =
             concat (map (\<lambda>i. map Yield (delivered (generate_content llm (sent_prompt prompt) i))
                                @ [Sleep (2 ^ i)]) [0 ..< j])
               @ map Yield (delivered (generate_content llm (sent_prompt prompt) j))
           \<and> yields (stream llm prompt) =
             concat (map (\<lambda>i. delivered (generate_content llm (sent_prompt prompt) i))
                       [0 ..< Suc j]))"
  using stream_events[OF assms, of j] stream_yields[OF assms, of j] by blast

theorem stream_error_after_last_attempt_witness:
  "yields (stream flaky_llm ''q'') = [''Hel'', ''Hel'', ''Hel'', degraded_message]
   \<and> stream recovering_llm ''q'' = [Yield ''Hel'', Sleep 1, Yield ''Hel'', Yield ''lo'']
   \<and> yields (stream recovering_llm ''q'') = [''Hel'', ''Hel'', ''lo'']"
proof -
  have p: "''q'' \<noteq> []" "py_strip ''q'' \<noteq> []" "0 < max_retries flaky_llm"
    "0 < max_retries recovering_llm"
    by (simp_all add: py_strip_def py_isspace_def flaky_llm_def recovering_llm_def)
  have a: "\<forall>i < nat (max_retries flaky_llm). raises (generate_content flaky_llm (sent_prompt ''q'') i)"
    by (simp add: flaky_llm_def)
  have b: "1 < nat (max_retries recovering_llm)
     \<and> \<not> raises (generate_content recovering_llm (sent_prompt ''q'') 1)
     \<and> (\<forall>i < 1. raises (generate_content recovering_llm (sent_prompt ''q'') i))"
    by (simp add: recovering_llm_def)
  have u: "[0 ..< nat (max_retries flaky_llm)] = [0, 1, 2]" "[0 ..< Suc 1] = [0, 1]"
    "[0 ..< (1::nat)] = [0]"
    by (simp_all add: flaky_llm_def upt_rec)
  from stream_error_after_last_attempt[OF p(1,2,3), of 0] a
  have "yields (stream flaky_llm ''q'') =
          concat (map (\<lambda>i. delivered (generate_content flaky_llm (sent_prompt ''q'') i))
                    [0 ..< nat (max_retries flaky_llm)]) @ [degraded_message]" by blast
  then have 1: "yields (stream flaky_llm ''q'') = [''Hel'', ''Hel'', ''Hel'', degraded_message]"
    unfolding u by (simp add: flaky_llm_def delivered_def)
  from stream_error_after_last_attempt[OF p(1,2,4), of 1] b
  have "stream recovering_llm ''q'' =
             concat (map (\<lambda>i. map Yield (delivered (generate_content recovering_llm (sent_prompt ''q'') i))
                                @ [Sleep (2 ^ i)]) [0 ..< 1])
               @ map Yield (delivered (generate_content recovering_llm (sent_prompt ''q'') 1))"
    and "yields (stream recovering_llm ''q'') =
             concat (map (\<lambda>i. delivered (generate_content recovering_llm (sent_prompt ''q'') i))
                       [0 ..< Suc 1])" by blast+
  then have 2: "stream recovering_llm ''q'' = [Yield ''Hel'', Sleep 1, Yield ''Hel'', Yield ''lo'']"
    "yields (stream recovering_llm ''q'') = [''Hel'', ''Hel'', ''lo'']"
    unfolding u by (simp_all add: recovering_llm_def delivered_def)
  from 1 2 show ?thesis by simp
qed

text \<open>
  C8 as stated fails: a backend that fails after one chunk at every attempt has that chunk
  yielded three times, and the message of degradation after them.
\<close>

theorem stream_error_after_chunk_counterexample:
  "stream flaky_llm ''q'' =
     [Yield ''Hel'', Sleep 1, Yield ''Hel'', Sleep 2, Yield ''Hel'', Yield degraded_message]"
  by (simp add: stream_def flaky_llm_def py_strip_def py_isspace_def delivered_def upt_rec Let_def)

section \<open>Formatting the sources\<close>

text \<open>
  C9, as the code has it. For a non-empty list of passages the result is the header and, in
  rank order and numbered by rank from 1, one line for every selected passage whose \<open>url\<close>
  is present, not empty and not \<open>Unknown\<close>. The selected passages are at most three, taken
  from the passages, in descending order of score, and no passage left out scores higher
  than a selected one. The score is 2 if \<open>srmist\<close> occurs in the lower-cased title or URL,
  plus 1 if the title has more than 20 characters and is not \<open>University Information\<close>,
  plus 1 if the content has more than 500 characters. A title of more than 60 characters
  is shown as its first 57 characters and three dots; a title of at most 60 characters is
  shown whole.
\<close>

theorem format_sources_ranked:
  "(docs \<noteq> [] \<longrightarrow>
      format_sources docs =
        [CHR 0x0A, CHR 0x0A, CHR '' '', CHR 0x0A]
          @ concat (map source_line
              (filter (\<lambda>(i, d). has_url d) (List.enumerate 1 (selected docs)))))
     \<and> length (selected docs) = min 3 (length docs)
     \<and> mset (selected docs) \<subseteq># mset docs
     \<and> sorted_wrt (\<lambda>a b. doc_score b \<le> doc_score a) (selected docs)
     \<and> (\<forall>a \<in> set (selected docs). \<forall>b \<in># mset docs - mset (selected docs).
           doc_score b \<le> doc_score a)
     \<and> (\<forall>d. doc_score d =
           (if py_in ''srmist'' (py_lower (get_or (metadata d) ''title'' []))
               \<or> py_in ''srmist'' (py_lower
                    (if get_or (metadata d) ''url'' [] \<noteq> [] then get_or (metadata d) ''url'' []
                     else get_or (metadata d) ''source'' []))
            then 2 else 0)
           + (if length (get_or (metadata d) ''title'' []) > 20
                 \<and> get_or (metadata d) ''title'' [] \<noteq> ''University Information''
              then 1 else 0)
           + (if length (page_content d) > 500 then 1 else 0))
     \<and> (\<forall>d. length (shown_title d) \<le> 60
           \<and> (length (get_or (metadata d) ''title'' ''University Information'') > 60 \<longrightarrow>
                shown_title d
                  = take 57 (get_or (metadata d) ''title'' ''University Information'') @ ''...'')
           \<and> (length (get_or (metadata d) ''title'' ''University Information'') \<le> 60 \<longrightarrow>
                shown_title d = get_or (metadata d) ''title'' ''University Information''))"
proof -
  have 1: "mset (selected docs) \<subseteq># mset docs"
    using selected_rest[of docs] by (metis mset_subset_eq_add_left)
  have 2: "\<forall>d. doc_score d =
           (if py_in ''srmist'' (py_lower (get_or (metadata d) ''title'' []))
               \<or> py_in ''srmist'' (py_lower
                    (if get_or (metadata d) ''url'' [] \<noteq> [] then get_or (metadata d) ''url'' []
                     else get_or (metadata d) ''source'' []))
            then 2 else 0)
           + (if length (get_or (metadata d) ''title'' []) > 20
                 \<and> get_or (metadata d) ''title'' [] \<noteq> ''University Information''
              then 1 else 0)
           + (if length (page_content d) > 500 then 1 else 0)"
    by (simp add: doc_score_def Let_def)
  show ?thesis
    using format_sources_eq[of docs] selected_length[of docs] 1 selected_descending[of docs]
      selected_top[of _ docs] 2 shown_title_cases
    by blast
qed

theorem format_sources_ranked_witness:
  "format_sources [doc_b, doc_a] =
     [CHR 0x0A, CHR 0x0A, CHR '' '', CHR 0x0A]
       @ concat (map source_line
           (filter (\<lambda>(i, d). has_url d) (List.enumerate 1 (selected [doc_b, doc_a]))))
   \<and> length (selected [doc_b, doc_a]) = 2
   \<and> selected [doc_b, doc_a] = [doc_a, doc_b]
   \<and> format_sources [doc_b, doc_a] =
       [CHR 0x0A, CHR 0x0A, CHR '' '', CHR 0x0A] @ ''1. ['' @ long_title @ ''](https://x.y/a)''
         @ [CHR 0x0A]"
proof -
  have n: "[doc_b, doc_a] \<noteq> []" by simp
  have sa: "doc_score doc_a = 3"
    by code_simp
  have sb: "doc_score doc_b = 0"
    by code_simp
  have s: "selected [doc_b, doc_a] = [doc_a, doc_b]"
    by (simp add: selected_def sort_reverse_def sa sb)
  have u: "has_url doc_a" "\<not> has_url doc_b" "shown_title doc_a = long_title"
    "get_or (metadata doc_a) ''url'' [] = ''https://x.y/a''"
    by (simp_all add: has_url_def shown_title_def doc_a_def doc_b_def get_or_def long_title_def)
  have one: "str_nat (Suc 0) = ''1''" by (simp add: str_nat.simps)
  from format_sources_ranked[of "[doc_b, doc_a]"] n
  have f: "format_sources [doc_b, doc_a] =
     [CHR 0x0A, CHR 0x0A, CHR '' '', CHR 0x0A]
       @ concat (map source_line
           (filter (\<lambda>(i, d). has_url d) (List.enumerate 1 (selected [doc_b, doc_a]))))"
    and l: "length (selected [doc_b, doc_a]) = min 3 (length [doc_b, doc_a])" by blast+
  have "concat (map source_line
           (filter (\<lambda>(i, d). has_url d) (List.enumerate 1 (selected [doc_b, doc_a]))))
        = ''1. ['' @ long_title @ ''](https://x.y/a)'' @ [CHR 0x0A]"
    unfolding s by (simp add: u source_line_def one)
  with f l s show ?thesis by simp
qed

text \<open>
  C9 as stated fails for titles of 58 to 60 characters: a title of 59 characters is shown
  whole, not cut to 57 characters and three dots.
\<close>

theorem title_of_59_counterexample:
  "length long_title = 59
   \<and> format_sources [doc_a] =
       [CHR 0x0A, CHR 0x0A, CHR '' '', CHR 0x0A] @ ''1. ['' @ long_title @ ''](https://x.y/a)''
         @ [CHR 0x0A]
   \<and> format_sources [doc_a] \<noteq>
       [CHR 0x0A, CHR 0x0A, CHR '' '', CHR 0x0A] @ ''1. ['' @ take 57 long_title @ ''...''
         @ ''](https://x.y/a)'' @ [CHR 0x0A]"
  by (simp add: format_sources_def sort_reverse_def doc_a_def long_title_def get_or_def
        str_nat.simps Let_def)

section \<open>Session clearing\<close>

text \<open>
  C10. Clearing a session always succeeds, whether or not the id has a stored session;
  afterwards the store has no entry for that id, every other id keeps its entry, and
  clearing again gives the same answer and the same store.
\<close>

theorem clear_session_total_idempotent:
  "fst (clear_session sid store) = Result True ''Session cleared''
   \<and> snd (clear_session sid store) sid = None
   \<and> (\<forall>other. other \<noteq> sid \<longrightarrow> snd (clear_session sid store) other = store other)
   \<and> clear_session sid (snd (clear_session sid store)) = clear_session sid store"
  by (auto simp: clear_session_def Let_def fun_upd_idem_iff domIff)

theorem clear_session_total_idempotent_witness:
  "fst (clear_session ''s1'' [''s1'' \<mapsto> new_session ''t1'', ''s2'' \<mapsto> new_session ''t2''])
     = Result True ''Session cleared''
   \<and> snd (clear_session ''s1'' [''s1'' \<mapsto> new_session ''t1'', ''s2'' \<mapsto> new_session ''t2''])
        ''s1'' = None
   \<and> snd (clear_session ''s1'' [''s1'' \<mapsto> new_session ''t1'', ''s2'' \<mapsto> new_session ''t2''])
        ''s2'' = Some (new_session ''t2'')
   \<and> snd (clear_session ''s3'' [''s1'' \<mapsto> new_session ''t1'', ''s2'' \<mapsto> new_session ''t2''])
        ''s3'' = None"
  using clear_session_total_idempotent
          [of "''s1''" "[''s1'' \<mapsto> new_session ''t1'', ''s2'' \<mapsto> new_session ''t2'']"]
        clear_session_total_idempotent
          [of "''s3''" "[''s1'' \<mapsto> new_session ''t1'', ''s2'' \<mapsto> new_session ''t2'']"]
  by simp

end
